theory Spec2Isabelle
  imports Complex_Main
begin

unbundle bit_operations_syntax

section \<open>Gaussian DFT speech detection: the transform and the detector pipeline\<close>

text \<open>
  The development embeds \<^verbatim>\<open>src/lib/FFT.ts\<close> (class \<^verbatim>\<open>FFT\<close>) and the detector class
  \<^verbatim>\<open>GaussianDFTAudioDetector\<close>. A finite number is an exact real: the rounding of
  \<^verbatim>\<open>Float32Array\<close> stores and of double arithmetic is left out, and a finite sum, product
  or quotient is kept as it is. A \<^verbatim>\<open>throw\<close> is the \<open>Inl\<close> branch of a sum. The values that
  are not finite are explicit in the type \<open>jsnum\<close>: \<open>NaN\<close>, which the window produces on a
  frame of one sample and which the transform then carries on, and the infinities, which
  \<^verbatim>\<open>Math.exp\<close> produces in the decision loop once its result passes \<^verbatim>\<open>Number.MAX_VALUE\<close>.
  A stage that is given finite numbers and keeps them finite takes and returns real lists.
\<close>

subsection \<open>Errors and numbers\<close>

datatype error =
    BadSize             \<comment> \<open>'FFT size must be a positive power of 2'\<close>
  | SizeMismatch        \<comment> \<open>'Input size must match FFT size'\<close>
  | TooShort            \<comment> \<open>'Audio file is too short for analysis.'\<close>
  | NotEnoughFrames     \<comment> \<open>'Not enough frames for noise estimation.'\<close>
  | TypeError           \<comment> \<open>property read on \<^verbatim>\<open>undefined\<close>\<close>

datatype jsnum = Fin real | PInf | NInf | NaN

text \<open>
  \<^verbatim>\<open>Number.EPSILON\<close> is \<open>2\<^sup>-\<^sup>5\<^sup>2\<close>; \<^verbatim>\<open>Number.MAX_VALUE\<close> is \<open>(2\<^sup>5\<^sup>3 - 1) \<cdot> 2\<^sup>9\<^sup>7\<^sup>1\<close>; the largest
  number that a \<^verbatim>\<open>Float32Array\<close> stores as a finite one is \<open>(2\<^sup>2\<^sup>4 - 1) \<cdot> 2\<^sup>1\<^sup>0\<^sup>4\<close>.
\<close>

definition EPSILON :: real where
  "EPSILON = 1 / 2 ^ 52"

definition MAX_VALUE :: real where
  "MAX_VALUE = (2 ^ 53 - 1) * 2 ^ 971"

definition FLOAT32_MAX :: real where
  "FLOAT32_MAX = (2 ^ 24 - 1) * 2 ^ 104"

text \<open>
  The arithmetic of JavaScript numbers on \<open>jsnum\<close>: \<^verbatim>\<open>+\<close>, unary and binary \<^verbatim>\<open>-\<close>, \<^verbatim>\<open>*\<close>,
  \<^verbatim>\<open>/\<close>, \<^verbatim>\<open>Math.sqrt\<close>, \<^verbatim>\<open>Math.exp\<close>, \<^verbatim>\<open>Math.log\<close>, \<^verbatim>\<open>Math.max\<close> and \<^verbatim>\<open>>\<close>. \<open>NaN\<close> is
  contagious and compares false. A zero divisor stands for \<open>+0\<close>, which is what the
  divisors of the source are when they are zero (\<^verbatim>\<open>frame.length - 1\<close>, \<^verbatim>\<open>1 + xiJ\<close>,
  \<^verbatim>\<open>frame.length\<close>).
\<close>

fun neg_js :: "jsnum \<Rightarrow> jsnum" where
  "neg_js (Fin a) = Fin (- a)"
| "neg_js PInf = NInf"
| "neg_js NInf = PInf"
| "neg_js NaN = NaN"

fun plus_js :: "jsnum \<Rightarrow> jsnum \<Rightarrow> jsnum" where
  "plus_js (Fin a) (Fin b) = Fin (a + b)"
| "plus_js NaN b = NaN"
| "plus_js a NaN = NaN"
| "plus_js PInf NInf = NaN"
| "plus_js NInf PInf = NaN"
| "plus_js PInf b = PInf"
| "plus_js a PInf = PInf"
| "plus_js NInf b = NInf"
| "plus_js a NInf = NInf"

definition minus_js :: "jsnum \<Rightarrow> jsnum \<Rightarrow> jsnum" where
  "minus_js a b = plus_js a (neg_js b)"

fun mult_js :: "jsnum \<Rightarrow> jsnum \<Rightarrow> jsnum" where
  "mult_js (Fin a) (Fin b) = Fin (a * b)"
| "mult_js NaN b = NaN"
| "mult_js a NaN = NaN"
| "mult_js (Fin a) PInf = (if 0 < a then PInf else if a < 0 then NInf else NaN)"
| "mult_js (Fin a) NInf = (if 0 < a then NInf else if a < 0 then PInf else NaN)"
| "mult_js PInf (Fin b) = (if 0 < b then PInf else if b < 0 then NInf else NaN)"
| "mult_js NInf (Fin b) = (if 0 < b then NInf else if b < 0 then PInf else NaN)"
| "mult_js PInf PInf = PInf"
| "mult_js NInf NInf = PInf"
| "mult_js PInf NInf = NInf"
| "mult_js NInf PInf = NInf"

fun div_js :: "jsnum \<Rightarrow> jsnum \<Rightarrow> jsnum" where
  "div_js (Fin a) (Fin b) =
     (if b = 0 then (if 0 < a then PInf else if a < 0 then NInf else NaN) else Fin (a / b))"
| "div_js NaN b = NaN"
| "div_js a NaN = NaN"
| "div_js (Fin a) PInf = Fin 0"
| "div_js (Fin a) NInf = Fin 0"
| "div_js PInf (Fin b) = (if 0 \<le> b then PInf else NInf)"
| "div_js NInf (Fin b) = (if 0 \<le> b then NInf else PInf)"
| "div_js PInf PInf = NaN"
| "div_js PInf NInf = NaN"
| "div_js NInf PInf = NaN"
| "div_js NInf NInf = NaN"

fun sqrt_js :: "jsnum \<Rightarrow> jsnum" where
  "sqrt_js (Fin a) = (if a < 0 then NaN else Fin (sqrt a))"
| "sqrt_js PInf = PInf"
| "sqrt_js NInf = NaN"
| "sqrt_js NaN = NaN"

text \<open>\<^verbatim>\<open>Math.exp\<close> overflows to \<^verbatim>\<open>Infinity\<close> when \<open>e\<^sup>x\<close> exceeds \<^verbatim>\<open>Number.MAX_VALUE\<close>.\<close>

fun exp_js :: "jsnum \<Rightarrow> jsnum" where
  "exp_js (Fin x) = (if MAX_VALUE < exp x then PInf else Fin (exp x))"
| "exp_js PInf = PInf"
| "exp_js NInf = Fin 0"
| "exp_js NaN = NaN"

fun log_js :: "jsnum \<Rightarrow> jsnum" where
  "log_js (Fin x) = (if x < 0 then NaN else if x = 0 then NInf else Fin (ln x))"
| "log_js PInf = PInf"
| "log_js NInf = NaN"
| "log_js NaN = NaN"

fun max_js :: "jsnum \<Rightarrow> jsnum \<Rightarrow> jsnum" where
  "max_js (Fin a) (Fin b) = Fin (max a b)"
| "max_js NaN b = NaN"
| "max_js a NaN = NaN"
| "max_js PInf b = PInf"
| "max_js a PInf = PInf"
| "max_js NInf b = b"
| "max_js a NInf = a"

fun gt_js :: "jsnum \<Rightarrow> jsnum \<Rightarrow> bool" where
  "gt_js (Fin a) (Fin b) = (b < a)"
| "gt_js NaN b = False"
| "gt_js a NaN = False"
| "gt_js a PInf = False"
| "gt_js NInf b = False"
| "gt_js PInf b = True"
| "gt_js a NInf = True"

subsection \<open>\<^verbatim>\<open>FFT.forward\<close>\<close>

text \<open>
  The body of the inner loop at row \<open>i\<close>, column \<open>j\<close>:
  \<^verbatim>\<open>real[i] += input[j] * Math.cos(angle); imag[i] -= input[j] * Math.sin(angle)\<close>.
\<close>

definition accumulate ::
  "real list \<Rightarrow> nat \<Rightarrow> nat \<Rightarrow> nat \<Rightarrow> real list \<times> real list \<Rightarrow> real list \<times> real list" where
  "accumulate input sz i j = (\<lambda>(re, im).
     let angle = (2 * pi * real i * real j) / real sz
     in (re[i := re ! i + input ! j * cos angle],
         im[i := im ! i - input ! j * sin angle]))"

text \<open>
  \<^verbatim>\<open>forward\<close>: the size check, the copy of the input into \<^verbatim>\<open>real\<close>
  (\<^verbatim>\<open>input.forEach((val, i) => real[i] = val)\<close>), the zero-filled \<^verbatim>\<open>imag\<close>, the two
  nested loops over \<open>0 .. size - 1\<close>, and the magnitude loop.
\<close>

definition forward :: "nat \<Rightarrow> real list \<Rightarrow> error + real list" where
  "forward sz input =
     (if length input \<noteq> sz then Inl SizeMismatch
      else
        let real0 = input;
            imag0 = replicate sz 0;
            (re, im) = fold (\<lambda>i. fold (accumulate input sz i) [0..<sz]) [0..<sz]
                         (real0, imag0)
        in Inr (map (\<lambda>i. sqrt (re ! i * re ! i + im ! i * im ! i)) [0..<sz]))"

text \<open>
  The discrete Fourier transform as the specification writes it,
  \<open>X[k] = \<Sum>j<N. x[j] \<cdot> e\<^sup>-\<^sup>2\<^sup>\<pi>\<^sup>i\<^sup>j\<^sup>k\<^sup>/\<^sup>N\<close>, and its magnitude vector. This definition follows the
  specification, not the source.
\<close>

definition dft_spec :: "real list \<Rightarrow> nat \<Rightarrow> complex" where
  "dft_spec x k =
     (\<Sum>j<length x. of_real (x ! j) * cis (- (2 * pi * real j * real k / real (length x))))"

definition dft_magnitude_spec :: "real list \<Rightarrow> real list" where
  "dft_magnitude_spec x = map (\<lambda>k. cmod (dft_spec x k)) [0..<length x]"

text \<open>The cosine and sine sums of row \<open>k\<close>.\<close>

definition cos_sum :: "real list \<Rightarrow> nat \<Rightarrow> nat \<Rightarrow> nat \<Rightarrow> real" where
  "cos_sum input sz k n =
     (\<Sum>j<n. input ! j * cos ((2 * pi * real k * real j) / real sz))"

definition sin_sum :: "real list \<Rightarrow> nat \<Rightarrow> nat \<Rightarrow> nat \<Rightarrow> real" where
  "sin_sum input sz k n =
     (\<Sum>j<n. input ! j * sin ((2 * pi * real k * real j) / real sz))"

text \<open>
  The constructor's check of the transform size,
  \<^verbatim>\<open>size <= 0 || (size & (size - 1)) !== 0\<close>, on integers (the source's \<^verbatim>\<open>&\<close> works on
  32-bit integers; the two agree for sizes below \<open>2\<^sup>3\<^sup>1\<close>). The cosine and sine tables the
  constructor fills are never read by \<^verbatim>\<open>forward\<close> and are left out.
\<close>

definition FFT_new :: "int \<Rightarrow> error + nat" where
  "FFT_new sz = (if sz \<le> 0 \<or> (sz AND (sz - 1)) \<noteq> 0 then Inl BadSize else Inr (nat sz))"

subsection \<open>The fast transform\<close>

text \<open>
  Modelled from the spec: the fast radix-2 transform (the sources import it from
  \<^verbatim>\<open>AudioDetectorFast\<close>, which is not among them). The specification says that it computes the
  coefficients \<open>X[k]\<close> by radix-2 decimation and returns \<open>|X[k]|\<close>. The size is \<open>2 ^ k\<close>; one
  stage splits the block into its even- and odd-indexed samples, transforms both halves and
  joins them with the twiddle factors \<open>e\<^sup>-\<^sup>2\<^sup>\<pi>\<^sup>i\<^sup>q\<^sup>/\<^sup>N\<close>.
\<close>

fun evens :: "'a list \<Rightarrow> 'a list" where
  "evens [] = []"
| "evens [x] = [x]"
| "evens (x # y # zs) = x # evens zs"

fun odds :: "'a list \<Rightarrow> 'a list" where
  "odds [] = []"
| "odds [x] = []"
| "odds (x # y # zs) = y # odds zs"

fun fft_radix2 :: "nat \<Rightarrow> complex list \<Rightarrow> complex list" where
  "fft_radix2 0 xs = xs"
| "fft_radix2 (Suc k) xs =
     (let h = 2 ^ k;
          ev = fft_radix2 k (evens xs);
          od = fft_radix2 k (odds xs);
          tw = map (\<lambda>q. cis (- (2 * pi * real q / real (2 * h))) * od ! q) [0..<h]
      in map (\<lambda>q. ev ! q + tw ! q) [0..<h] @ map (\<lambda>q. ev ! q - tw ! q) [0..<h])"

definition forward_fast :: "nat \<Rightarrow> real list \<Rightarrow> error + real list" where
  "forward_fast k input =
     (if length input \<noteq> 2 ^ k then Inl SizeMismatch
      else Inr (map cmod (fft_radix2 k (map of_real input))))"

text \<open>
  The tolerance of the specification: two magnitudes agree when they differ by at most
  \<open>10\<^sup>-\<^sup>3\<close> relative to the larger one or by at most \<open>10\<^sup>-\<^sup>4\<close> absolutely.
\<close>

definition within_tolerance :: "real \<Rightarrow> real \<Rightarrow> bool" where
  "within_tolerance a b =
     (\<bar>a - b\<bar> \<le> (1 / 1000) * max \<bar>a\<bar> \<bar>b\<bar> \<or> \<bar>a - b\<bar> \<le> 1 / 10000)"

subsection \<open>\<^verbatim>\<open>frameSignal\<close>\<close>

text \<open>\<^verbatim>\<open>signal.slice(a, b)\<close> for \<open>0 \<le> a\<close>, \<open>0 \<le> b\<close>: both ends are clamped to the length.\<close>

definition slice :: "'a list \<Rightarrow> nat \<Rightarrow> nat \<Rightarrow> 'a list" where
  "slice xs a b = drop a (take b xs)"

text \<open>
  The loop \<^verbatim>\<open>for (let i = 0; i < signal.length - this.frameLength; i += this.hopLength)\<close>,
  with the frames pushed so far. With \<open>hopLength = 0\<close> it never ends, hence the option:
  \<open>None\<close> is the run that does not return.
\<close>

partial_function (option) frameSignal_loop ::
  "nat \<Rightarrow> nat \<Rightarrow> real list \<Rightarrow> nat \<Rightarrow> real list list \<Rightarrow> real list list option" where
  "frameSignal_loop frameLength hopLength signal i frames =
     (if int i < int (length signal) - int frameLength
      then frameSignal_loop frameLength hopLength signal (i + hopLength)
             (frames @ [slice signal i (i + frameLength)])
      else Some frames)"

definition frameSignal :: "nat \<Rightarrow> nat \<Rightarrow> real list \<Rightarrow> (error + real list list) option" where
  "frameSignal frameLength hopLength signal =
     (if length signal < frameLength then Some (Inl TooShort)
      else map_option Inr (frameSignal_loop frameLength hopLength signal 0 []))"

subsection \<open>\<^verbatim>\<open>applyWindow\<close>\<close>

text \<open>
  The coefficient \<^verbatim>\<open>0.5 * (1 - Math.cos((2 * Math.PI * i) / (frame.length - 1)))\<close>. The divisor
  is zero exactly for a frame of length 1; its only index is 0, the quotient is \<open>0 / 0\<close>, and
  the cosine, the difference and the products keep the \<open>NaN\<close>.
\<close>

definition hann :: "nat \<Rightarrow> nat \<Rightarrow> jsnum" where
  "hann L i =
     (if L = 1 then NaN
      else Fin (0.5 * (1 - cos ((2 * pi * real i) / (real L - 1)))))"

fun times_js :: "real \<Rightarrow> jsnum \<Rightarrow> jsnum" where
  "times_js x NaN = NaN"
| "times_js x (Fin w) = Fin (x * w)"
| "times_js x PInf = (if 0 < x then PInf else if x < 0 then NInf else NaN)"
| "times_js x NInf = (if 0 < x then NInf else if x < 0 then PInf else NaN)"

definition applyWindow :: "real list \<Rightarrow> jsnum list" where
  "applyWindow frame =
     (let window = map (hann (length frame)) [0..<length frame]
      in map (\<lambda>(x, i). times_js x (window ! i)) (zip frame [0..<length frame]))"

subsection \<open>\<^verbatim>\<open>extractDFTFeatures\<close>\<close>

text \<open>
  The windowed frame that \<^verbatim>\<open>extractDFTFeatures\<close> hands to \<^verbatim>\<open>forward\<close> may hold \<open>NaN\<close>.
  \<open>forward_js\<close> is \<^verbatim>\<open>FFT.forward\<close> once more, line by line, on such a frame; on a frame of
  finite numbers it is \<open>forward\<close> (\<open>forward_js_Fin\<close>).
\<close>

definition accumulate_js ::
  "jsnum list \<Rightarrow> nat \<Rightarrow> nat \<Rightarrow> nat \<Rightarrow> jsnum list \<times> jsnum list \<Rightarrow> jsnum list \<times> jsnum list" where
  "accumulate_js input sz i j = (\<lambda>(re, im).
     let angle = (2 * pi * real i * real j) / real sz
     in (re[i := plus_js (re ! i) (mult_js (input ! j) (Fin (cos angle)))],
         im[i := minus_js (im ! i) (mult_js (input ! j) (Fin (sin angle)))]))"

definition forward_js :: "nat \<Rightarrow> jsnum list \<Rightarrow> error + jsnum list" where
  "forward_js sz input =
     (if length input \<noteq> sz then Inl SizeMismatch
      else
        let real0 = input;
            imag0 = replicate sz (Fin 0);
            (re, im) = fold (\<lambda>i. fold (accumulate_js input sz i) [0..<sz]) [0..<sz]
                         (real0, imag0)
        in Inr (map (\<lambda>i. sqrt_js (plus_js (mult_js (re ! i) (re ! i))
                                            (mult_js (im ! i) (im ! i)))) [0..<sz]))"

text \<open>
  \<^verbatim>\<open>frames.map(frame => ...)\<close>: the window, the transform and
  \<^verbatim>\<open>dft.slice(0, this.frameLength / 2 + 1)\<close>, whose end the slice truncates to an integer. A
  \<^verbatim>\<open>throw\<close> of the transform ends the map.
\<close>

fun extractDFTFeatures :: "nat \<Rightarrow> real list list \<Rightarrow> error + jsnum list list" where
  "extractDFTFeatures frameLength [] = Inr []"
| "extractDFTFeatures frameLength (frame # frames) =
     (case forward_js frameLength (applyWindow frame) of
        Inl e \<Rightarrow> Inl e
      | Inr dft \<Rightarrow>
          (case extractDFTFeatures frameLength frames of
             Inl e \<Rightarrow> Inl e
           | Inr rest \<Rightarrow> Inr (slice dft 0 (frameLength div 2 + 1) # rest)))"

subsection \<open>\<^verbatim>\<open>estimateNoiseVariance\<close>\<close>

text \<open>\<open>nNoiseFrames\<close> is a number of frames, a natural number.\<close>

definition estimateNoiseVariance :: "real list list \<Rightarrow> nat \<Rightarrow> error + real list" where
  "estimateNoiseVariance features nNoiseFrames =
     (let numFramesToUse = min (length features) nNoiseFrames
      in if numFramesToUse = 0 then Inl NotEnoughFrames
         else
           let variance0 = replicate (length (features ! 0)) (0::real);
               variance =
                 fold (\<lambda>i. fold (\<lambda>j v. v[j := v ! j + (features ! i ! j)\<^sup>2])
                               [0..<length variance0])
                   [0..<numFramesToUse] variance0
           in Inr (map (\<lambda>v. v / real numFramesToUse) variance))"

subsection \<open>\<^verbatim>\<open>estimatePrioriSNR\<close>\<close>

text \<open>
  \<^verbatim>\<open>sigmaN[j] || Number.EPSILON\<close>: the epsilon stands in for a zero and for a read past the
  end (\<^verbatim>\<open>undefined\<close>).
\<close>

definition orEpsilon :: "real list \<Rightarrow> nat \<Rightarrow> real" where
  "orEpsilon sigmaN j = (if j < length sigmaN \<and> sigmaN ! j \<noteq> 0 then sigmaN ! j else EPSILON)"

text \<open>The body of the loop over the bins of frame \<open>m \<ge> 1\<close>, writing \<^verbatim>\<open>newXi[j]\<close>.\<close>

definition newXi_step ::
  "real list \<Rightarrow> real list \<Rightarrow> real list \<Rightarrow> real \<Rightarrow> nat \<Rightarrow> real list \<Rightarrow> real list" where
  "newXi_step frame prevXi sigmaN alpha j newXi =
     (let sigmaNJ = orEpsilon sigmaN j;
          ampPrev = sqrt (prevXi ! j * sigmaNJ);
          gammaCurrent = (frame ! j)\<^sup>2 / sigmaNJ
      in newXi[j := alpha * (ampPrev\<^sup>2 / sigmaNJ) + (1 - alpha) * max (gammaCurrent - 1) 0])"

text \<open>The value that the loop body stores in \<^verbatim>\<open>newXi[j]\<close>.\<close>

definition xi_next :: "real list \<Rightarrow> real list \<Rightarrow> real list \<Rightarrow> real \<Rightarrow> nat \<Rightarrow> real" where
  "xi_next frame prevXi sigmaN alpha j =
     alpha * ((sqrt (prevXi ! j * orEpsilon sigmaN j))\<^sup>2 / orEpsilon sigmaN j) +
     (1 - alpha) * max ((frame ! j)\<^sup>2 / orEpsilon sigmaN j - 1) 0"

text \<open>The body of the loop over the frames \<open>m = 1, 2, \<dots>\<close>, pushing \<^verbatim>\<open>newXi\<close>.\<close>

definition xi_step ::
  "real list list \<Rightarrow> real list \<Rightarrow> real \<Rightarrow> nat \<Rightarrow> real list list \<Rightarrow> real list list" where
  "xi_step features sigmaN alpha m xi =
     (let frame = features ! m;
          prevXi = xi ! (m - 1);
          newXi = fold (newXi_step frame prevXi sigmaN alpha) [0..<length frame]
                    (replicate (length frame) 0)
      in xi @ [newXi])"

text \<open>
  \<^verbatim>\<open>estimatePrioriSNR\<close>. With no frame at all \<^verbatim>\<open>features[0]\<close> is \<^verbatim>\<open>undefined\<close> and
  \<^verbatim>\<open>firstFrame.map\<close> throws.
\<close>

definition estimatePrioriSNR ::
  "real list list \<Rightarrow> real list \<Rightarrow> real \<Rightarrow> error + real list list" where
  "estimatePrioriSNR features sigmaN alpha =
     (case features of
        [] \<Rightarrow> Inl TypeError
      | firstFrame # _ \<Rightarrow>
          let gamma = map (\<lambda>(y, j). y\<^sup>2 / orEpsilon sigmaN j)
                        (zip firstFrame [0..<length firstFrame]);
              xi0 = [map (\<lambda>g. max (g - 1) 0) gamma]
          in Inr (fold (xi_step features sigmaN alpha) [1..<length features] xi0))"

text \<open>
  The recursion as the specification words it: the product under the square root takes
  \<open>noisePower[j]\<close> itself, and only the divisions take the epsilon in place of a zero.
  This definition follows the specification, not the source.
\<close>

fun xi_spec :: "real list list \<Rightarrow> real list \<Rightarrow> real \<Rightarrow> nat \<Rightarrow> nat \<Rightarrow> real" where
  "xi_spec y sigmaN alpha 0 j = max ((y ! 0 ! j)\<^sup>2 / orEpsilon sigmaN j - 1) 0"
| "xi_spec y sigmaN alpha (Suc m) j =
     alpha * ((sqrt (xi_spec y sigmaN alpha m j * sigmaN ! j))\<^sup>2 / orEpsilon sigmaN j) +
     (1 - alpha) * max ((y ! Suc m ! j)\<^sup>2 / orEpsilon sigmaN j - 1) 0"

subsection \<open>The decision loop of \<^verbatim>\<open>detectSpeech\<close>\<close>

record decision =
  speechFrames :: "bool list"
  logLikelihood :: "jsnum list"

text \<open>
  The likelihood ratio \<^verbatim>\<open>L\<close> of bin \<open>j\<close>, as the body of the inner loop computes it. The
  spectrum, the SNR estimate and the noise power are finite numbers; the quotients, the
  exponential and what follows them are JavaScript numbers.
\<close>

definition likelihood :: "real list \<Rightarrow> real list \<Rightarrow> real list \<Rightarrow> nat \<Rightarrow> jsnum" where
  "likelihood frame xi_m sigmaN j =
     (let sigmaS = xi_m ! j * sigmaN ! j;
          y2 = (frame ! j)\<^sup>2;
          gamma = div_js (Fin y2) (Fin (orEpsilon sigmaN j));
          xiJ = div_js (Fin sigmaS) (Fin (orEpsilon sigmaN j))
      in mult_js (div_js (Fin 1) (plus_js (Fin 1) xiJ))
           (exp_js (div_js (mult_js gamma xiJ) (plus_js (Fin 1) xiJ))))"



text \<open>
  The inner loop, accumulating \<^verbatim>\<open>sumLogL\<close>, and the average \<^verbatim>\<open>avgLogL\<close> of one frame.
\<close>

definition sumLogL_step :: "real list \<Rightarrow> real list \<Rightarrow> real list \<Rightarrow> nat \<Rightarrow> jsnum \<Rightarrow> jsnum" where
  "sumLogL_step frame xi_m sigmaN j sumLogL =
     plus_js sumLogL (log_js (max_js (likelihood frame xi_m sigmaN j) (Fin EPSILON)))"

definition avgLogL :: "real list \<Rightarrow> real list \<Rightarrow> real list \<Rightarrow> jsnum" where
  "avgLogL frame xi_m sigmaN =
     div_js (fold (sumLogL_step frame xi_m sigmaN) [0..<length frame] (Fin 0))
       (Fin (real (length frame)))"

text \<open>The outer loop over the frames, pushing one average and one boolean per frame.\<close>

definition decide_step ::
  "real list list \<Rightarrow> real list list \<Rightarrow> real list \<Rightarrow> real \<Rightarrow> nat \<Rightarrow> decision \<Rightarrow> decision" where
  "decide_step features xi sigmaN threshold m r =
     (let a = avgLogL (features ! m) (xi ! m) sigmaN
      in \<lparr>speechFrames = speechFrames r @ [gt_js a (log_js (Fin threshold))],
          logLikelihood = logLikelihood r @ [a]\<rparr>)"

definition detectSpeech_loop ::
  "real list list \<Rightarrow> real list list \<Rightarrow> real list \<Rightarrow> real \<Rightarrow> decision" where
  "detectSpeech_loop features xi sigmaN threshold =
     fold (decide_step features xi sigmaN threshold) [0..<length features]
       \<lparr>speechFrames = [], logLikelihood = []\<rparr>"


subsection \<open>The loops of \<^verbatim>\<open>forward\<close> in closed form\<close>

lemma inner_loop:
  assumes "i < length re" "i < length im"
  shows "fold (accumulate input sz i) [0..<n] (re, im) =
           (re[i := re ! i + cos_sum input sz i n],
            im[i := im ! i - sin_sum input sz i n])"
proof (induction n)
  case 0
  show ?case by (simp add: cos_sum_def sin_sum_def)
next
  case (Suc n)
  have "fold (accumulate input sz i) [0..<Suc n] (re, im) =
          accumulate input sz i n (fold (accumulate input sz i) [0..<n] (re, im))"
    by simp
  also have "\<dots> = accumulate input sz i n
                    (re[i := re ! i + cos_sum input sz i n],
                     im[i := im ! i - sin_sum input sz i n])"
    by (simp only: Suc.IH)
  also have "\<dots> = (re[i := re ! i + cos_sum input sz i (Suc n)],
                   im[i := im ! i - sin_sum input sz i (Suc n)])"
    using assms by (simp add: accumulate_def cos_sum_def sin_sum_def Let_def algebra_simps)
  finally show ?case .
qed

lemma outer_loop:
  assumes "m \<le> length re" "length im = length re"
  shows "fold (\<lambda>i. fold (accumulate input sz i) [0..<n]) [0..<m] (re, im) =
           (map (\<lambda>k. if k < m then re ! k + cos_sum input sz k n else re ! k) [0..<length re],
            map (\<lambda>k. if k < m then im ! k - sin_sum input sz k n else im ! k) [0..<length re])"
  using assms
proof (induction m)
  case 0
  then show ?case by (simp add: map_nth) (metis map_nth)
next
  case (Suc m)
  let ?re = "map (\<lambda>k. if k < m then re ! k + cos_sum input sz k n else re ! k) [0..<length re]"
  let ?im = "map (\<lambda>k. if k < m then im ! k - sin_sum input sz k n else im ! k) [0..<length re]"
  have m: "m < length re" using Suc.prems by simp
  have "fold (\<lambda>i. fold (accumulate input sz i) [0..<n]) [0..<Suc m] (re, im) =
          fold (accumulate input sz m) [0..<n] (?re, ?im)"
    using Suc by simp
  also have "\<dots> = (?re[m := ?re ! m + cos_sum input sz m n],
                   ?im[m := ?im ! m - sin_sum input sz m n])"
    using m by (intro inner_loop) simp_all
  also have "?re[m := ?re ! m + cos_sum input sz m n] =
          map (\<lambda>k. if k < Suc m then re ! k + cos_sum input sz k n else re ! k) [0..<length re]"
    using m by (intro nth_equalityI) (auto simp: nth_list_update less_Suc_eq)
  also have "?im[m := ?im ! m - sin_sum input sz m n] =
          map (\<lambda>k. if k < Suc m then im ! k - sin_sum input sz k n else im ! k) [0..<length re]"
    using m by (intro nth_equalityI) (auto simp: nth_list_update less_Suc_eq)
  finally show ?case .
qed

lemma forward_closed_form:
  assumes "length input = sz"
  shows "forward sz input =
           Inr (map (\<lambda>k. sqrt ((input ! k + cos_sum input sz k sz)\<^sup>2 +
                                (sin_sum input sz k sz)\<^sup>2)) [0..<sz])"
proof -
  have "fold (\<lambda>i. fold (accumulate input sz i) [0..<sz]) [0..<sz]
          (input, replicate sz 0) =
        (map (\<lambda>k. if k < sz then input ! k + cos_sum input sz k sz else input ! k)
           [0..<length input],
         map (\<lambda>k. if k < sz then replicate sz 0 ! k - sin_sum input sz k sz
                   else replicate sz 0 ! k) [0..<length input])"
    using assms by (intro outer_loop) simp_all
  then show ?thesis
    using assms by (simp add: forward_def power2_eq_square)
qed

subsection \<open>The loop of \<^verbatim>\<open>frameSignal\<close> in closed form\<close>

lemma ceil_div_less:
  fixes q h D :: nat
  assumes "0 < h"
  shows "q < (D + h - 1) div h \<longleftrightarrow> q * h < D"
proof -
  have "q < (D + h - 1) div h \<longleftrightarrow> Suc q \<le> (D + h - 1) div h" by auto
  also have "\<dots> \<longleftrightarrow> Suc q * h \<le> D + h - 1"
    using assms by (simp add: less_eq_div_iff_mult_less_eq)
  also have "\<dots> \<longleftrightarrow> q * h < D" using assms by auto
  finally show ?thesis .
qed

lemma frameSignal_loop_closed:
  assumes "0 < h" "F \<le> length signal" "q \<le> (length signal - F + h - 1) div h"
  shows "frameSignal_loop F h signal (q * h) frames =
           Some (frames @ map (\<lambda>i. slice signal (i * h) (i * h + F))
                            [q..<(length signal - F + h - 1) div h])"
  using assms(3)
proof (induction "(length signal - F + h - 1) div h - q" arbitrary: q frames)
  case 0
  then have q: "q = (length signal - F + h - 1) div h" by simp
  then have "\<not> q * h < length signal - F"
    using ceil_div_less [OF assms(1), of q "length signal - F"] by simp
  then have "\<not> int (q * h) < int (length signal) - int F"
    using assms(2) by linarith
  then show ?case
    using q by (subst frameSignal_loop.simps) simp
next
  case (Suc d)
  then have q: "q < (length signal - F + h - 1) div h" by simp
  then have "q * h < length signal - F"
    using ceil_div_less [OF assms(1), of q "length signal - F"] by simp
  then have c: "int (q * h) < int (length signal) - int F"
    using assms(2) by linarith
  have d: "d = (length signal - F + h - 1) div h - Suc q" using Suc.hyps(2) by simp
  have s: "Suc q \<le> (length signal - F + h - 1) div h" using q by simp
  have "frameSignal_loop F h signal (q * h) frames =
          frameSignal_loop F h signal (Suc q * h) (frames @ [slice signal (q * h) (q * h + F)])"
    using c by (subst frameSignal_loop.simps) (simp add: add.commute)
  also have "\<dots> = Some ((frames @ [slice signal (q * h) (q * h + F)]) @
                     map (\<lambda>i. slice signal (i * h) (i * h + F))
                       [Suc q..<(length signal - F + h - 1) div h])"
    using Suc.hyps(1) [OF d s] .
  also have "\<dots> = Some (frames @ map (\<lambda>i. slice signal (i * h) (i * h + F))
                            [q..<(length signal - F + h - 1) div h])"
    using q by (simp add: upt_conv_Cons)
  finally show ?case .
qed

text \<open>
  With a positive hop and a signal of at least one frame length \<open>F\<close>, the loop returns, and
  the frames start at the offsets \<open>i \<cdot> h < L - F\<close>: there are \<open>\<lceil>(L - F) / h\<rceil>\<close> of them.
\<close>

lemma frameSignal_closed_form:
  assumes "0 < h" "F \<le> length signal"
  shows "frameSignal F h signal =
           Some (Inr (map (\<lambda>i. slice signal (i * h) (i * h + F))
                        [0..<(length signal - F + h - 1) div h]))"
  using frameSignal_loop_closed [OF assms, of 0 "[]"] assms(2)
  by (simp add: frameSignal_def)

subsection \<open>The window on frames of two samples or more\<close>

lemma applyWindow_closed_form:
  assumes "2 \<le> length frame"
  shows "applyWindow frame =
           map (\<lambda>i. Fin (frame ! i *
                          (0.5 * (1 - cos (2 * pi * real i / (real (length frame) - 1))))))
             [0..<length frame]"
  using assms by (intro nth_equalityI) (auto simp: applyWindow_def hann_def)

subsection \<open>The loops of the noise and SNR estimators in closed form\<close>


lemma fold_update_each:
  assumes "n \<le> length v"
  shows "fold (\<lambda>j v. v[j := F j (v ! j)]) [0..<n] v =
           map (\<lambda>j. if j < n then F j (v ! j) else v ! j) [0..<length v]"
  using assms
proof (induction n)
  case 0
  show ?case by (simp add: map_nth)
next
  case (Suc n)
  then have n: "n < length v" by simp
  let ?w = "map (\<lambda>j. if j < n then F j (v ! j) else v ! j) [0..<length v]"
  have "fold (\<lambda>j v. v[j := F j (v ! j)]) [0..<Suc n] v = ?w[n := F n (?w ! n)]"
    using Suc by simp
  also have "\<dots> = map (\<lambda>j. if j < Suc n then F j (v ! j) else v ! j) [0..<length v]"
    using n by (intro nth_equalityI) (auto simp: nth_list_update less_Suc_eq)
  finally show ?case .
qed

lemma variance_loop:
  assumes "length v = K"
  shows "fold (\<lambda>i. fold (\<lambda>j v. v[j := v ! j + (features ! i ! j)\<^sup>2]) [0..<K]) [0..<c] v =
           map (\<lambda>j. v ! j + (\<Sum>i<c. (features ! i ! j)\<^sup>2)) [0..<K]"
proof (induction c)
  case 0
  show ?case using assms map_nth [of v] by simp
next
  case (Suc c)
  let ?w = "map (\<lambda>j. v ! j + (\<Sum>i<c. (features ! i ! j)\<^sup>2)) [0..<K]"
  have "fold (\<lambda>i. fold (\<lambda>j v. v[j := v ! j + (features ! i ! j)\<^sup>2]) [0..<K]) [0..<Suc c] v =
          fold (\<lambda>j v. v[j := (\<lambda>j x. x + (features ! c ! j)\<^sup>2) j (v ! j)]) [0..<K] ?w"
    using Suc by simp
  also have "\<dots> = map (\<lambda>j. if j < K then (\<lambda>j x. x + (features ! c ! j)\<^sup>2) j (?w ! j) else ?w ! j)
                     [0..<length ?w]"
    by (rule fold_update_each) simp
  also have "\<dots> = map (\<lambda>j. v ! j + (\<Sum>i<Suc c. (features ! i ! j)\<^sup>2)) [0..<K]"
    by (intro nth_equalityI) (auto simp: add.assoc)
  finally show ?case .
qed

lemma estimateNoiseVariance_closed_form:
  assumes "0 < min (length features) n"
  shows "estimateNoiseVariance features n =
           Inr (map (\<lambda>j. (\<Sum>i<min (length features) n. (features ! i ! j)\<^sup>2) /
                          real (min (length features) n))
                  [0..<length (features ! 0)])"
  using assms
  by (simp add: estimateNoiseVariance_def Let_def variance_loop [where K = "length (features ! 0)"] o_def)



lemma EPSILON_pos: "0 < EPSILON"
  by (simp add: EPSILON_def)

lemma orEpsilon_pos: "0 \<le> sigmaN ! j \<Longrightarrow> 0 < orEpsilon sigmaN j"
  using EPSILON_pos by (simp add: orEpsilon_def)

lemma orEpsilon_nonzero: "orEpsilon sigmaN j \<noteq> 0"
  using EPSILON_pos by (simp add: orEpsilon_def)

lemma newXi_loop:
  "fold (newXi_step frame prevXi sigmaN alpha) [0..<length frame] (replicate (length frame) 0) =
     map (xi_next frame prevXi sigmaN alpha) [0..<length frame]"
proof -
  have "newXi_step frame prevXi sigmaN alpha =
          (\<lambda>j v. v[j := (\<lambda>j x. xi_next frame prevXi sigmaN alpha j) j (v ! j)])"
    by (simp add: newXi_step_def xi_next_def Let_def fun_eq_iff)
  then have "fold (newXi_step frame prevXi sigmaN alpha) [0..<length frame]
               (replicate (length frame) 0) =
             map (\<lambda>j. if j < length frame then xi_next frame prevXi sigmaN alpha j
                       else replicate (length frame) 0 ! j)
               [0..<length (replicate (length frame) (0::real))]"
    using fold_update_each [of "length frame" "replicate (length frame) 0"
                              "\<lambda>j x. xi_next frame prevXi sigmaN alpha j"]
    by simp
  then show ?thesis by simp
qed

lemma xi_step_closed:
  "xi_step features sigmaN alpha m xi =
     xi @ [map (xi_next (features ! m) (xi ! (m - 1)) sigmaN alpha) [0..<length (features ! m)]]"
  by (simp add: xi_step_def Let_def newXi_loop)

lemma xi_loop:
  assumes "1 \<le> n"
  shows "length (fold (xi_step features sigmaN alpha) [1..<n] [x0]) = n \<and>
         fold (xi_step features sigmaN alpha) [1..<n] [x0] ! 0 = x0 \<and>
         (\<forall>m. 1 \<le> m \<and> m < n \<longrightarrow>
            fold (xi_step features sigmaN alpha) [1..<n] [x0] ! m =
              map (xi_next (features ! m)
                     (fold (xi_step features sigmaN alpha) [1..<n] [x0] ! (m - 1)) sigmaN alpha)
                [0..<length (features ! m)])"
  using assms
proof (induction n)
  case 0
  then show ?case by simp
next
  case (Suc n)
  show ?case
  proof (cases "n = 0")
    case True
    then show ?thesis by simp
  next
    case False
    then have n: "1 \<le> n" by simp
    let ?xs = "fold (xi_step features sigmaN alpha) [1..<n] [x0]"
    have IH: "length ?xs = n" "?xs ! 0 = x0"
      "\<And>m. 1 \<le> m \<Longrightarrow> m < n \<Longrightarrow>
         ?xs ! m = map (xi_next (features ! m) (?xs ! (m - 1)) sigmaN alpha)
                     [0..<length (features ! m)]"
      using Suc.IH [OF n] by auto
    have step: "fold (xi_step features sigmaN alpha) [1..<Suc n] [x0] =
            ?xs @ [map (xi_next (features ! n) (?xs ! (n - 1)) sigmaN alpha)
                     [0..<length (features ! n)]]"
      using n by (simp add: xi_step_closed)
    show ?thesis
      unfolding step using IH n
      by (auto simp: nth_append less_Suc_eq)
  qed
qed

lemma estimatePrioriSNR_closed:
  assumes "features \<noteq> []"
  shows "\<exists>xi. estimatePrioriSNR features sigmaN alpha = Inr xi \<and>
           length xi = length features \<and>
           xi ! 0 = map (\<lambda>j. max ((features ! 0 ! j)\<^sup>2 / orEpsilon sigmaN j - 1) 0)
                      [0..<length (features ! 0)] \<and>
           (\<forall>m. 1 \<le> m \<and> m < length features \<longrightarrow>
              xi ! m = map (xi_next (features ! m) (xi ! (m - 1)) sigmaN alpha)
                         [0..<length (features ! m)])"
proof -
  obtain f fs where f: "features = f # fs" using assms by (cases features) auto
  let ?x0 = "map (\<lambda>g. max (g - 1) 0)
               (map (\<lambda>(y, j). y\<^sup>2 / orEpsilon sigmaN j) (zip f [0..<length f]))"
  have x0: "?x0 = map (\<lambda>j. max ((features ! 0 ! j)\<^sup>2 / orEpsilon sigmaN j - 1) 0)
                    [0..<length (features ! 0)]"
    unfolding f by (intro nth_equalityI) auto
  have e: "estimatePrioriSNR features sigmaN alpha =
             Inr (fold (xi_step features sigmaN alpha) [1..<length features] [?x0])"
    unfolding f by (simp add: estimatePrioriSNR_def Let_def)
  have "1 \<le> length features" using f by simp
  from xi_loop [OF this, of features sigmaN alpha ?x0] show ?thesis
    unfolding e x0 by auto
qed

subsection \<open>Signs of the values of each stage\<close>

lemma forward_nonneg:
  assumes "forward sz input = Inr mags"
  shows "\<forall>x\<in>set mags. 0 \<le> x"
proof (cases "length input = sz")
  case True
  from forward_closed_form [OF True] assms show ?thesis by auto
next
  case False
  then show ?thesis using assms by (simp add: forward_def)
qed

lemma estimateNoiseVariance_nonneg:
  assumes "estimateNoiseVariance features n = Inr sigmaN"
  shows "features \<noteq> [] \<and> length sigmaN = length (features ! 0) \<and> (\<forall>x\<in>set sigmaN. 0 \<le> x)"
proof (cases "0 < min (length features) n")
  case True
  from estimateNoiseVariance_closed_form [OF True] assms True show ?thesis
    by (auto intro!: divide_nonneg_nonneg sum_nonneg)
next
  case False
  then have "min (length features) n = 0" by auto
  then show ?thesis using assms by (simp add: estimateNoiseVariance_def Let_def)
qed

lemma xi_next_nonneg:
  assumes "0 \<le> alpha" "alpha \<le> 1" "0 < orEpsilon sigmaN j"
  shows "0 \<le> xi_next frame prevXi sigmaN alpha j"
proof -
  have "0 \<le> alpha * ((sqrt (prevXi ! j * orEpsilon sigmaN j))\<^sup>2 / orEpsilon sigmaN j)"
    using assms by (intro mult_nonneg_nonneg divide_nonneg_nonneg) simp_all
  moreover have "0 \<le> (1 - alpha) * max ((frame ! j)\<^sup>2 / orEpsilon sigmaN j - 1) 0"
    using assms by (intro mult_nonneg_nonneg) simp_all
  ultimately show ?thesis by (simp add: xi_next_def)
qed

lemma estimatePrioriSNR_nonneg:
  assumes "0 \<le> alpha" "alpha \<le> 1" "\<forall>f\<in>set features. length f = K"
    "length sigmaN = K" "\<forall>x\<in>set sigmaN. 0 \<le> x"
    "estimatePrioriSNR features sigmaN alpha = Inr xi"
  shows "\<forall>v\<in>set xi. \<forall>x\<in>set v. 0 \<le> x"
proof -
  have ne: "features \<noteq> []"
    using assms(6) by (auto simp: estimatePrioriSNR_def)
  have xi: "length xi = length features"
      "xi ! 0 = map (\<lambda>j. max ((features ! 0 ! j)\<^sup>2 / orEpsilon sigmaN j - 1) 0)
                  [0..<length (features ! 0)]"
      "\<And>m. 1 \<le> m \<Longrightarrow> m < length features \<Longrightarrow>
         xi ! m = map (xi_next (features ! m) (xi ! (m - 1)) sigmaN alpha)
                    [0..<length (features ! m)]"
    using estimatePrioriSNR_closed [OF ne, of sigmaN alpha] assms(6) by auto
  have pos: "0 < orEpsilon sigmaN j" if "j < K" for j
    using assms(4,5) that by (intro orEpsilon_pos) simp
  have "\<forall>x\<in>set (xi ! m). 0 \<le> x" if m: "m < length features" for m
  proof (cases "m = 0")
    case True
    then show ?thesis using xi(2) by auto
  next
    case False
    have "length (features ! m) = K" using assms(3) m by simp
    then show ?thesis
      using xi(3) [of m] m False xi_next_nonneg [OF assms(1,2) pos] by auto
  qed
  then have "\<forall>x\<in>set v. 0 \<le> x" if "v \<in> set xi" for v
    using that xi(1) by (metis in_set_conv_nth)
  then show ?thesis by blast
qed

text \<open>
  On finite numbers every stage keeps its values non-negative: the magnitudes of \<open>forward\<close>,
  the bins of the noise power and, for \<open>0 < \<alpha> < 1\<close> and spectra of one length, the a-priori
  SNR values on that noise power.
\<close>

lemma pipeline_values_nonnegative:
  assumes "0 < alpha" "alpha < 1" "\<forall>f\<in>set features. length f = K"
  shows "(\<forall>mags. forward sz input = Inr mags \<longrightarrow> (\<forall>x\<in>set mags. 0 \<le> x)) \<and>
         (\<forall>sigmaN. estimateNoiseVariance features n = Inr sigmaN \<longrightarrow>
            (\<forall>x\<in>set sigmaN. 0 \<le> x) \<and>
            (\<forall>xi. estimatePrioriSNR features sigmaN alpha = Inr xi \<longrightarrow>
               (\<forall>v\<in>set xi. \<forall>x\<in>set v. 0 \<le> x)))"
proof (intro conjI allI impI)
  fix mags assume "forward sz input = Inr mags"
  then show "\<forall>x\<in>set mags. 0 \<le> x" by (rule forward_nonneg)
next
  fix sigmaN assume "estimateNoiseVariance features n = Inr sigmaN"
  then show "\<forall>x\<in>set sigmaN. 0 \<le> x" using estimateNoiseVariance_nonneg by blast
next
  fix sigmaN xi
  assume s: "estimateNoiseVariance features n = Inr sigmaN"
    and x: "estimatePrioriSNR features sigmaN alpha = Inr xi"
  from estimateNoiseVariance_nonneg [OF s]
  have ne: "features \<noteq> []" and l: "length sigmaN = length (features ! 0)"
    and p: "\<forall>x\<in>set sigmaN. 0 \<le> x" by auto
  have "length (features ! 0) = K" using ne assms(3) by (cases features) auto
  then have l': "length sigmaN = K" using l by simp
  show "\<forall>v\<in>set xi. \<forall>x\<in>set v. 0 \<le> x"
    using estimatePrioriSNR_nonneg [OF _ _ assms(3) l' p x] assms(1,2) by simp
qed


lemma pipeline_values_nonnegative_example:
  "forward 1 [1] = Inr [2] \<and> estimateNoiseVariance [[1], [2]] 1 = Inr [1] \<and>
   estimatePrioriSNR [[1], [2]] [1] (1 / 2) = Inr [[0], [3 / 2]] \<and>
   (0::real) \<le> 2 \<and> (0::real) \<le> 1 \<and> (0::real) \<le> 3 / 2"
proof -
  have h1: "(0::real) < 1 / 2" and h2: "(1 / 2 :: real) < 1" by simp_all
  have h3: "\<forall>f\<in>set [[1], [2::real]]. length f = 1" by simp
  have a: "forward 1 [1] = Inr [2]"
    by (simp add: forward_def accumulate_def Let_def)
  have b: "estimateNoiseVariance [[1], [2]] 1 = Inr [1]"
    by (simp add: estimateNoiseVariance_def)
  have c: "estimatePrioriSNR [[1], [2]] [1] (1 / 2) = Inr [[0], [3 / 2]]"
    by (simp add: estimatePrioriSNR_def xi_step_def newXi_step_def orEpsilon_def Let_def)
  from pipeline_values_nonnegative [OF h1 h2 h3, of 1 "[1]" 1] a b c
  have "(\<forall>x\<in>set [2::real]. 0 \<le> x) \<and> (\<forall>x\<in>set [1::real]. 0 \<le> x) \<and>
        (\<forall>v\<in>set [[0], [3 / 2 :: real]]. \<forall>x\<in>set v. 0 \<le> x)"
    by simp
  then show ?thesis using a b c by simp
qed


subsection \<open>The decision loop in closed form\<close>


lemma exp_le_MAX_VALUE:
  assumes "x \<le> 1"
  shows "\<not> MAX_VALUE < exp x"
proof -
  have "exp x \<le> exp 1" using assms by simp
  also have "\<dots> \<le> 3" using exp_le by simp
  also have "\<dots> \<le> (2 ^ 53 - 1) * 1" by simp
  also have "\<dots> \<le> (2 ^ 53 - 1) * 2 ^ 971"
    by (intro mult_left_mono one_le_power) simp_all
  finally show ?thesis by (simp only: MAX_VALUE_def not_less)
qed

lemma max_one_EPSILON: "max 1 EPSILON = 1"
  by (simp add: EPSILON_def)



lemma plus_js_Fin_0 [simp]: "plus_js s (Fin 0) = s"
  by (cases s) simp_all






lemma decide_loop:
  "fold (decide_step features xi sigmaN threshold) [0..<n]
     \<lparr>speechFrames = [], logLikelihood = []\<rparr> =
   \<lparr>speechFrames = map (\<lambda>m. gt_js (avgLogL (features ! m) (xi ! m) sigmaN)
                                   (log_js (Fin threshold))) [0..<n],
    logLikelihood = map (\<lambda>m. avgLogL (features ! m) (xi ! m) sigmaN) [0..<n]\<rparr>"
  by (induction n) (simp_all add: decide_step_def Let_def)

lemma detectSpeech_loop_closed_form:
  "detectSpeech_loop features xi sigmaN threshold =
   \<lparr>speechFrames = map (\<lambda>m. gt_js (avgLogL (features ! m) (xi ! m) sigmaN)
                                   (log_js (Fin threshold))) [0..<length features],
    logLikelihood = map (\<lambda>m. avgLogL (features ! m) (xi ! m) sigmaN) [0..<length features]\<rparr>"
  by (simp add: detectSpeech_loop_def decide_loop)

lemma gt_js_Fin_mono: "l1 \<le> l2 \<Longrightarrow> gt_js a (Fin l2) \<Longrightarrow> gt_js a (Fin l1)"
  by (cases a) simp_all





lemma filter_length_mono:
  assumes "\<forall>x\<in>set xs. P x \<longrightarrow> Q x"
  shows "length (filter P xs) \<le> length (filter Q xs)"
  using assms by (induction xs) auto

subsection \<open>Both transforms on a unit impulse\<close>

lemma evens_replicate: "evens (replicate (2 * n) x) = replicate n x"
  by (induction n) simp_all

lemma odds_replicate: "odds (replicate (2 * n) x) = replicate n x"
  by (induction n) simp_all

lemma map_const_upt: "map (\<lambda>q. c) [0..<n] = replicate n c"
  by (simp add: map_replicate_const)

lemma fft_radix2_zeros: "fft_radix2 k (replicate (2 ^ k) 0) = replicate (2 ^ k) 0"
proof (induction k)
  case 0
  show ?case by simp
next
  case (Suc k)
  have e: "evens (replicate (2 ^ Suc k) (0::complex)) = replicate (2 ^ k) 0"
    using evens_replicate [of "2 ^ k" "0::complex"] by simp
  have o: "odds (replicate (2 ^ Suc k) (0::complex)) = replicate (2 ^ k) 0"
    using odds_replicate [of "2 ^ k" "0::complex"] by simp
  have "fft_radix2 (Suc k) (replicate (2 ^ Suc k) 0) =
          map (\<lambda>q. 0) [0..<2 ^ k] @ map (\<lambda>q. 0) [0..<2 ^ k]"
    unfolding fft_radix2.simps e o Suc.IH by (simp add: Let_def)
  also have "\<dots> = replicate (2 ^ Suc k) 0"
    by (simp add: map_const_upt replicate_add [symmetric])
  finally show ?case .
qed

lemma impulse_split:
  "c # replicate (2 ^ Suc k - 1) z = c # z # replicate (2 * (2 ^ k - 1)) z"
proof -
  have "1 \<le> (2::nat) ^ k" by simp
  then have "2 * (2::nat) ^ k - 1 = Suc (2 * (2 ^ k - 1))" by arith
  then have "(2::nat) ^ Suc k - 1 = Suc (2 * (2 ^ k - 1))" by simp
  then show ?thesis by (simp only: replicate_Suc)
qed

lemma fft_radix2_impulse:
  "fft_radix2 k (c # replicate (2 ^ k - 1) 0) = replicate (2 ^ k) c"
proof (induction k)
  case 0
  show ?case by simp
next
  case (Suc k)
  have p: "Suc (2 ^ k - 1) = (2::nat) ^ k" by simp
  have e: "evens (c # replicate (2 ^ Suc k - 1) 0) = c # replicate (2 ^ k - 1) 0"
    unfolding impulse_split by (simp add: evens_replicate)
  have "(0::complex) # replicate (2 ^ k - 1) 0 = replicate (Suc (2 ^ k - 1)) 0"
    by (simp only: replicate_Suc)
  then have z: "(0::complex) # replicate (2 ^ k - 1) 0 = replicate (2 ^ k) 0"
    unfolding p .
  have o: "odds (c # replicate (2 ^ Suc k - 1) 0) = replicate (2 ^ k) (0::complex)"
    unfolding impulse_split odds.simps odds_replicate z ..
  have "fft_radix2 (Suc k) (c # replicate (2 ^ Suc k - 1) 0) =
          map (\<lambda>q. c) [0..<2 ^ k] @ map (\<lambda>q. c) [0..<2 ^ k]"
    unfolding fft_radix2.simps e o Suc.IH fft_radix2_zeros by (simp add: Let_def)
  also have "\<dots> = replicate (2 ^ Suc k) c"
    by (simp add: map_const_upt replicate_add [symmetric])
  finally show ?case .
qed

lemma forward_fast_impulse:
  "forward_fast k (1 # replicate (2 ^ k - 1) 0) = Inr (replicate (2 ^ k) 1)"
proof -
  have m: "map complex_of_real (1 # replicate (2 ^ k - 1) 0) = 1 # replicate (2 ^ k - 1) 0"
    by simp
  have l: "length (1 # replicate (2 ^ k - 1) (0::real)) = 2 ^ k"
    by simp
  have "forward_fast k (1 # replicate (2 ^ k - 1) 0) =
          Inr (map cmod (fft_radix2 k (map complex_of_real (1 # replicate (2 ^ k - 1) 0))))"
    unfolding forward_fast_def using l by (simp only: if_False simp_thms)
  also have "\<dots> = Inr (map cmod (replicate (2 ^ k) 1))"
    unfolding m fft_radix2_impulse ..
  also have "\<dots> = Inr (replicate (2 ^ k) 1)"
    by simp
  finally show ?thesis .
qed

lemma sum_nth_impulse: "(\<Sum>j<Suc n. (1 # replicate n (0::real)) ! j) = 1"
proof -
  have "(\<Sum>j<Suc n. (1 # replicate n (0::real)) ! j) = sum_list (1 # replicate n (0::real))"
    by (simp add: sum_list_sum_nth atLeast0LessThan del: sum.lessThan_Suc)
  then show ?thesis by (simp add: sum_list_replicate)
qed

lemma forward_impulse_bin0:
  assumes "0 < N"
  shows "\<exists>r. forward N (1 # replicate (N - 1) 0) = Inr r \<and> r ! 0 = 2"
proof -
  obtain n where n: "N = Suc n" using assms by (cases N) auto
  have l: "length (1 # replicate n (0::real)) = Suc n" by simp
  have c: "cos_sum (1 # replicate n 0) (Suc n) 0 (Suc n) = 1"
    unfolding cos_sum_def using sum_nth_impulse [of n] by (simp del: sum.lessThan_Suc)
  have s: "sin_sum (1 # replicate n 0) (Suc n) 0 (Suc n) = 0"
    unfolding sin_sum_def by (simp del: sum.lessThan_Suc)
  have "forward (Suc n) (1 # replicate n 0) =
          Inr (map (\<lambda>k. sqrt (((1 # replicate n 0) ! k +
                                  cos_sum (1 # replicate n 0) (Suc n) k (Suc n))\<^sup>2 +
                               (sin_sum (1 # replicate n 0) (Suc n) k (Suc n))\<^sup>2)) [0..<Suc n])"
    by (rule forward_closed_form [OF l])
  moreover have "map (\<lambda>k. sqrt (((1 # replicate n 0) ! k +
                                  cos_sum (1 # replicate n 0) (Suc n) k (Suc n))\<^sup>2 +
                               (sin_sum (1 # replicate n 0) (Suc n) k (Suc n))\<^sup>2)) [0..<Suc n] ! 0 = 2"
    using c s by (simp add: upt_conv_Cons del: upt_Suc)
  ultimately show ?thesis unfolding n by simp
qed

lemma impulse_disagreement:
  "\<exists>r f. forward (2 ^ k) (1 # replicate (2 ^ k - 1) 0) = Inr r \<and>
         forward_fast k (1 # replicate (2 ^ k - 1) 0) = Inr f \<and>
         r ! 0 = 2 \<and> f ! 0 = 1 \<and> \<not> within_tolerance (r ! 0) (f ! 0)"
proof -
  obtain r where r: "forward (2 ^ k) (1 # replicate (2 ^ k - 1) 0) = Inr r" "r ! 0 = 2"
    using forward_impulse_bin0 [of "2 ^ k"] by auto
  have "\<not> within_tolerance 2 1" by (simp add: within_tolerance_def)
  then show ?thesis using r forward_fast_impulse [of k] by simp
qed

subsection \<open>\<open>forward_js\<close> on finite frames\<close>

lemma fold_commute_invariant:
  assumes "\<And>x s. x \<in> set xs \<Longrightarrow> P s \<Longrightarrow> g x (h s) = h (f x s) \<and> P (f x s)" "P s"
  shows "fold g xs (h s) = h (fold f xs s) \<and> P (fold f xs s)"
  using assms by (induction xs arbitrary: s) auto

lemma accumulate_js_Fin:
  assumes "i < length re" "i < length im" "j < length input"
  shows "accumulate_js (map Fin input) sz i j (map Fin re, map Fin im) =
           map_prod (map Fin) (map Fin) (accumulate input sz i j (re, im))"
  using assms by (simp add: accumulate_js_def accumulate_def minus_js_def Let_def map_update)

lemma inner_loop_js_Fin:
  assumes "i < sz" "length input = sz" "length re = sz" "length im = sz"
  shows "fold (accumulate_js (map Fin input) sz i) [0..<sz] (map Fin re, map Fin im) =
           map_prod (map Fin) (map Fin) (fold (accumulate input sz i) [0..<sz] (re, im)) \<and>
         length (fst (fold (accumulate input sz i) [0..<sz] (re, im))) = sz \<and>
         length (snd (fold (accumulate input sz i) [0..<sz] (re, im))) = sz"
proof -
  have "fold (accumulate_js (map Fin input) sz i) [0..<sz]
          (map_prod (map Fin) (map Fin) (re, im)) =
        map_prod (map Fin) (map Fin) (fold (accumulate input sz i) [0..<sz] (re, im)) \<and>
        (\<lambda>s. length (fst s) = sz \<and> length (snd s) = sz)
          (fold (accumulate input sz i) [0..<sz] (re, im))"
  proof (rule fold_commute_invariant)
    fix j and s :: "real list \<times> real list"
    assume j: "j \<in> set [0..<sz]" and s: "length (fst s) = sz \<and> length (snd s) = sz"
    obtain r m where rm: "s = (r, m)" by (cases s)
    have "accumulate_js (map Fin input) sz i j (map Fin r, map Fin m) =
            map_prod (map Fin) (map Fin) (accumulate input sz i j (r, m))"
      using j s assms(1,2) rm by (intro accumulate_js_Fin) simp_all
    moreover have "length (fst (accumulate input sz i j (r, m))) = sz \<and>
                   length (snd (accumulate input sz i j (r, m))) = sz"
      using s rm by (simp add: accumulate_def Let_def)
    ultimately show "accumulate_js (map Fin input) sz i j (map_prod (map Fin) (map Fin) s) =
             map_prod (map Fin) (map Fin) (accumulate input sz i j s) \<and>
             length (fst (accumulate input sz i j s)) = sz \<and>
             length (snd (accumulate input sz i j s)) = sz"
      unfolding rm by simp
  next
    show "length (fst (re, im)) = sz \<and> length (snd (re, im)) = sz"
      using assms(3,4) by simp
  qed
  then show ?thesis by simp
qed

lemma outer_loop_js_Fin:
  assumes "length input = sz"
  shows "fold (\<lambda>i. fold (accumulate_js (map Fin input) sz i) [0..<sz]) [0..<sz]
           (map Fin input, replicate sz (Fin 0)) =
         map_prod (map Fin) (map Fin)
           (fold (\<lambda>i. fold (accumulate input sz i) [0..<sz]) [0..<sz] (input, replicate sz 0))"
proof -
  have "fold (\<lambda>i. fold (accumulate_js (map Fin input) sz i) [0..<sz]) [0..<sz]
          (map_prod (map Fin) (map Fin) (input, replicate sz 0)) =
        map_prod (map Fin) (map Fin)
          (fold (\<lambda>i. fold (accumulate input sz i) [0..<sz]) [0..<sz] (input, replicate sz 0)) \<and>
        (\<lambda>s. length (fst s) = sz \<and> length (snd s) = sz)
          (fold (\<lambda>i. fold (accumulate input sz i) [0..<sz]) [0..<sz] (input, replicate sz 0))"
  proof (rule fold_commute_invariant)
    fix i and s :: "real list \<times> real list"
    assume i: "i \<in> set [0..<sz]" and s: "length (fst s) = sz \<and> length (snd s) = sz"
    obtain r m where rm: "s = (r, m)" by (cases s)
    from inner_loop_js_Fin [of i sz input r m] i s assms rm
    show "fold (accumulate_js (map Fin input) sz i) [0..<sz] (map_prod (map Fin) (map Fin) s) =
            map_prod (map Fin) (map Fin) (fold (accumulate input sz i) [0..<sz] s) \<and>
          length (fst (fold (accumulate input sz i) [0..<sz] s)) = sz \<and>
          length (snd (fold (accumulate input sz i) [0..<sz] s)) = sz"
      by simp
  next
    show "length (fst (input, replicate sz (0::real))) = sz \<and>
          length (snd (input, replicate sz (0::real))) = sz"
      using assms by simp
  qed
  then show ?thesis by simp
qed

lemma magnitude_js_Fin:
  "sqrt_js (plus_js (mult_js (Fin a) (Fin a)) (mult_js (Fin b) (Fin b))) =
     Fin (sqrt (a * a + b * b))"
proof -
  have "\<not> a * a + b * b < 0" by (simp add: not_less)
  then show ?thesis by simp
qed

lemma forward_js_Fin:
  "forward_js sz (map Fin input) = map_sum id (map Fin) (forward sz input)"
proof (cases "length input = sz")
  case False
  then show ?thesis by (simp add: forward_js_def forward_def)
next
  case True
  obtain re im where f: "fold (\<lambda>i. fold (accumulate input sz i) [0..<sz]) [0..<sz]
                          (input, replicate sz 0) = (re, im)"
    by (cases "fold (\<lambda>i. fold (accumulate input sz i) [0..<sz]) [0..<sz]
                 (input, replicate sz 0)")
  have len: "length re = sz" "length im = sz"
    using f outer_loop [of sz input "replicate sz 0" input sz sz] True by auto
  have fj: "fold (\<lambda>i. fold (accumulate_js (map Fin input) sz i) [0..<sz]) [0..<sz]
              (map Fin input, replicate sz (Fin 0)) = (map Fin re, map Fin im)"
    using outer_loop_js_Fin [OF True] f by simp
  have "forward_js sz (map Fin input) =
          Inr (map (\<lambda>i. sqrt_js (plus_js (mult_js (map Fin re ! i) (map Fin re ! i))
                                           (mult_js (map Fin im ! i) (map Fin im ! i))))
                 [0..<sz])"
    using True fj by (simp add: forward_js_def)
  also have "\<dots> = Inr (map (\<lambda>i. Fin (sqrt (re ! i * re ! i + im ! i * im ! i))) [0..<sz])"
    using len by (simp add: magnitude_js_Fin del: sqrt_js.simps plus_js.simps mult_js.simps)
  also have "\<dots> = map_sum id (map Fin) (forward sz input)"
    using True f by (simp add: forward_def o_def)
  finally show ?thesis .
qed

subsection \<open>The SNR estimator after a silent lead-in\<close>

lemma estimatePrioriSNR_unfold:
  assumes "features \<noteq> []"
  shows "estimatePrioriSNR features sigmaN alpha =
           Inr (fold (xi_step features sigmaN alpha) [1..<length features]
                  [map (\<lambda>j. max ((features ! 0 ! j)\<^sup>2 / orEpsilon sigmaN j - 1) 0)
                     [0..<length (features ! 0)]])"
proof -
  obtain f fs where f: "features = f # fs" using assms by (cases features) auto
  have "map (\<lambda>g. max (g - 1) 0)
               (map (\<lambda>(y, j). y\<^sup>2 / orEpsilon sigmaN j) (zip f [0..<length f])) =
        map (\<lambda>j. max ((features ! 0 ! j)\<^sup>2 / orEpsilon sigmaN j - 1) 0)
                    [0..<length (features ! 0)]"
    unfolding f by (intro nth_equalityI) auto
  then show ?thesis
    unfolding f by (simp add: estimatePrioriSNR_def Let_def)
qed

lemma xi_next_silent:
  assumes "frame ! j = 0" "prevXi ! j = 0"
  shows "xi_next frame prevXi sigmaN alpha j = 0"
  using assms by (simp add: xi_next_def)

lemma xi_silent_prefix:
  assumes "\<forall>m<n. features ! m = replicate K 0" "1 \<le> n"
  shows "fold (xi_step features sigmaN alpha) [1..<n] [replicate K 0] =
           replicate n (replicate K 0)"
  using assms
proof (induction n)
  case 0
  then show ?case by simp
next
  case (Suc n)
  show ?case
  proof (cases "n = 0")
    case True
    then show ?thesis by simp
  next
    case False
    then have n: "1 \<le> n" by simp
    have IH: "fold (xi_step features sigmaN alpha) [1..<n] [replicate K 0] =
                replicate n (replicate K 0)"
      using Suc.IH Suc.prems(1) n by simp
    have fn: "features ! n = replicate K 0" using Suc.prems(1) by simp
    have pv: "replicate n (replicate K (0::real)) ! (n - 1) = replicate K 0"
      using n by simp
    have "map (xi_next (replicate K 0) (replicate K 0) sigmaN alpha) [0..<K] = replicate K 0"
      by (intro nth_equalityI) (simp_all add: xi_next_silent)
    then have "xi_step features sigmaN alpha n (replicate n (replicate K 0)) =
            replicate n (replicate K 0) @ [replicate K 0]"
      unfolding xi_step_closed fn pv by simp
    then show ?thesis
      using n IH by (simp add: replicate_append_same)
  qed
qed

subsection \<open>The spectra of a silent frame and of a frame with one sample\<close>

text \<open>
  For the frame length 4 the window is \<open>[0, 3/4, 3/4, 0]\<close>. A frame whose third sample is
  \<open>2\<^sup>-\<^sup>2\<^sup>4\<close> and whose other samples are 0 has the windowed sample \<open>v = 3 \<cdot> 2\<^sup>-\<^sup>2\<^sup>6\<close> and the
  spectrum \<open>[v, v, 2v]\<close>; a frame of silence has the spectrum \<open>[0, 0, 0]\<close>.
\<close>

lemma cos_240: "cos (4 * pi / 3) = - 1 / 2"
proof -
  have "cos (4 * pi / 3) = cos (pi / 3 + pi)" by (simp add: field_simps)
  also have "\<dots> = - cos (pi / 3)" by (rule cos_periodic_pi)
  finally show ?thesis by (simp add: cos_60)
qed

lemma applyWindow_third_sample:
  "applyWindow [0, 0, x, 0] = [Fin 0, Fin 0, Fin (x * (3 / 4)), Fin 0]"
proof -
  have h: "hann 4 i = Fin (0.5 * (1 - cos (2 * pi * real i / 3)))" for i
    by (simp add: hann_def)
  have c: "cos (2 * pi * real (2::nat) / 3) = - 1 / 2"
    using cos_240 by simp
  have u: "[0..<4] = [0, 1, 2, 3::nat]" by code_simp
  have "applyWindow [0, 0, x, 0] =
          [times_js 0 (hann 4 0), times_js 0 (hann 4 1), times_js x (hann 4 2),
           times_js 0 (hann 4 3)]"
    by (simp add: applyWindow_def Let_def u del: times_js.simps) (simp add: eval_nat_numeral)
  also have "\<dots> = [Fin 0, Fin 0, Fin (x * (3 / 4)), Fin 0]"
    unfolding h c times_js.simps by simp
  finally show ?thesis .
qed

lemma sum_less_4: "(\<Sum>j<(4::nat). f j) = f 0 + f 1 + f 2 + (f 3 :: real)"
  by (simp add: eval_nat_numeral)

lemma forward_third_sample:
  assumes "0 \<le> v"
  shows "forward 4 [0, 0, v, 0] = Inr [v, v, 2 * v, v]"
proof -
  have a: "2 * pi * real k * real (2::nat) / real (4::nat) = pi * real k" for k
    by simp
  have cs: "cos_sum [0, 0, v, 0] 4 k 4 = v * (- 1) ^ k" for k
    unfolding cos_sum_def sum_less_4 using a [of k] by simp
  have sn: "sin_sum [0, 0, v, 0] 4 k 4 = 0" for k
    unfolding sin_sum_def sum_less_4 using a [of k] by simp
  have u: "[0..<4] = [0, 1, 2, 3::nat]" by code_simp
  have "forward 4 [0, 0, v, 0] =
          Inr (map (\<lambda>k. sqrt (([0, 0, v, 0] ! k + v * (- 1) ^ k)\<^sup>2 + 0\<^sup>2)) [0..<4])"
    using forward_closed_form [of "[0, 0, v, 0]" 4] unfolding cs sn by simp
  also have "\<dots> = Inr [v, v, 2 * v, v]"
    unfolding u using assms by (simp add: eval_nat_numeral)
  finally show ?thesis .
qed

lemma extractDFTFeatures_silence_and_sample:
  "extractDFTFeatures 4 [[0, 0, 0, 0], [0, 0, 1 / 2 ^ 24, 0]] =
     Inr [[Fin 0, Fin 0, Fin 0], [Fin (3 / 2 ^ 26), Fin (3 / 2 ^ 26), Fin (6 / 2 ^ 26)]]"
proof -
  have w0: "applyWindow [0, 0, 0, 0] = map Fin [0, 0, 0, 0]"
    using applyWindow_third_sample [of 0] by simp
  have w1: "applyWindow [0, 0, 1 / 2 ^ 24, 0] = map Fin [0, 0, 3 / 2 ^ 26, 0]"
    using applyWindow_third_sample [of "1 / 2 ^ 24"] by simp
  have f0: "forward_js 4 (map Fin [0, 0, 0, 0]) = Inr [Fin 0, Fin 0, Fin 0, Fin 0]"
    unfolding forward_js_Fin using forward_third_sample [of 0] by simp
  have f1: "forward_js 4 (map Fin [0, 0, 3 / 2 ^ 26, 0]) =
              Inr [Fin (3 / 2 ^ 26), Fin (3 / 2 ^ 26), Fin (6 / 2 ^ 26), Fin (3 / 2 ^ 26)]"
    unfolding forward_js_Fin using forward_third_sample [of "3 / 2 ^ 26"] by simp
  show ?thesis
    unfolding extractDFTFeatures.simps w0 w1 f0 f1 by (simp add: slice_def)
qed

section \<open>The claims\<close>

text \<open>
  C1. The claim: for a frame \<open>x\<close> of the transform size, \<^verbatim>\<open>forward\<close> returns the magnitudes
  \<open>|X[k]|\<close> of the discrete Fourier transform, whose real part is the cosine sum with no
  term added. The source copies the input into \<^verbatim>\<open>real\<close> before the loops add the cosine
  sums to it (\<open>forward_closed_form\<close>: the real part of bin \<open>k\<close> is \<open>x[k]\<close> plus the cosine
  sum). On the frame \<open>[1, 0]\<close> of size 2, a size the constructor accepts, \<^verbatim>\<open>forward\<close> returns
  \<open>[2, 1]\<close> where the magnitudes of the transform are \<open>[1, 1]\<close>.
\<close>

theorem forward_adds_input_to_real_part:
  "FFT_new 2 = Inr 2 \<and> forward 2 [1, 0] = Inr [2, 1] \<and> dft_magnitude_spec [1, 0] = [1, 1]"
proof -
  have "FFT_new 2 = Inr 2"
    by (simp add: FFT_new_def)
  moreover have "forward 2 [1, 0] = Inr [2, 1]"
    by (simp add: forward_def accumulate_def numeral_2_eq_2 Let_def)
  moreover have "dft_magnitude_spec [1, 0] = [1, 1]"
    by (simp add: dft_magnitude_spec_def dft_spec_def numeral_2_eq_2)
  ultimately show ?thesis by simp
qed

text \<open>
  C2. The claim: for a signal of length \<open>L \<ge> F\<close> and a hop \<open>0 < h \<le> F\<close>, \<^verbatim>\<open>frameSignal\<close>
  returns \<open>\<lfloor>(L - F) / h\<rfloor> + 1\<close> frames, one for every offset with \<open>i \<cdot> h + F \<le> L\<close>, and one
  frame for a signal of length \<open>F\<close>. The loop runs while \<open>i < L - F\<close>, so the frame that ends
  at the last sample is not produced: a signal of exactly one frame length (4 samples, hop 2)
  gives no frame, and 6 samples give one frame where the claim counts two.
\<close>

theorem frameSignal_drops_last_frame:
  "frameSignal 4 2 [1, 2, 3, 4] = Some (Inr []) \<and>
   frameSignal 4 2 [1, 2, 3, 4, 5, 6] = Some (Inr [[1, 2, 3, 4]])"
  by (simp add: frameSignal_def frameSignal_loop.simps slice_def)

text \<open>
  C6. The claim: \<^verbatim>\<open>applyWindow\<close> keeps the length, multiplies sample \<open>i\<close> by
  \<open>0.5 \<cdot> (1 - cos (2\<pi>i / (L - 1)))\<close> for \<open>L \<ge> 2\<close> (\<open>applyWindow_closed_form\<close>), and for
  \<open>L = 1\<close> yields a well-defined value, never \<open>NaN\<close>. The source has no case for \<open>L = 1\<close>:
  the coefficient is \<open>0 / 0\<close>, and the frame \<open>[1]\<close>, of the size 1 that the constructor
  accepts, comes back as \<open>[NaN]\<close>.
\<close>

theorem applyWindow_single_sample_is_NaN:
  "FFT_new 1 = Inr 1 \<and> applyWindow [1] = [NaN]"
  by (simp add: FFT_new_def applyWindow_def hann_def)

text \<open>
  C4. The claim: for non-empty spectra \<open>y\<close>, a noise power vector \<open>\<sigma>\<close> and \<open>0 < \<alpha> < 1\<close>,
  \<open>\<xi>[0][j] = max (y[0][j]\<^sup>2 / \<sigma>[j] - 1) 0\<close> and, for \<open>m \<ge> 1\<close>,
  \<open>\<xi>[m][j] = \<alpha> \<cdot> (sqrt (\<xi>[m-1][j] \<cdot> \<sigma>[j])\<^sup>2 / \<sigma>[j]) + (1 - \<alpha>) \<cdot> max (y[m][j]\<^sup>2 / \<sigma>[j] - 1) 0\<close>,
  where the divisions by \<open>\<sigma>[j] = 0\<close> take an epsilon. As stated (\<open>xi_spec\<close>) the product
  under the square root keeps the zero. The source binds
  \<^verbatim>\<open>sigmaNJ = sigmaN[j] || Number.EPSILON\<close> once and uses it in the product as well. Take
  twelve spectra of 4-sample frames: ten of silence, one of a frame whose third sample is
  \<open>2\<^sup>-\<^sup>2\<^sup>4\<close>, one of silence again. Their noise power, from the first ten, is \<open>[0, 0, 0]\<close>.
  With \<open>\<alpha> = 1/2\<close> the source gives \<open>\<xi>[10][0] = 4\<close> and \<open>\<xi>[11][0] = 2\<close>; the claim's formula
  gives \<open>\<xi>[11][0] = 0\<close>. All the numbers involved are dyadic, so the source computes them
  without rounding in bin 0.
\<close>

theorem estimatePrioriSNR_uses_epsilon_under_root:
  "extractDFTFeatures 4 [[0, 0, 0, 0], [0, 0, 1 / 2 ^ 24, 0]] =
     Inr [[Fin 0, Fin 0, Fin 0], [Fin (3 / 2 ^ 26), Fin (3 / 2 ^ 26), Fin (6 / 2 ^ 26)]] \<and>
   estimateNoiseVariance (replicate 10 [0, 0, 0] @ [[3 / 2 ^ 26, 3 / 2 ^ 26, 6 / 2 ^ 26], [0, 0, 0]]) 10 =
     Inr [0, 0, 0] \<and>
   estimatePrioriSNR (replicate 10 [0, 0, 0] @ [[3 / 2 ^ 26, 3 / 2 ^ 26, 6 / 2 ^ 26], [0, 0, 0]])
     [0, 0, 0] (1 / 2) =
     Inr (replicate 10 [0, 0, 0] @ [[4, 4, 35 / 2], [2, 2, 35 / 4]]) \<and>
   xi_spec (replicate 10 [0, 0, 0] @ [[3 / 2 ^ 26, 3 / 2 ^ 26, 6 / 2 ^ 26], [0, 0, 0]])
     [0, 0, 0] (1 / 2) 11 0 = 0"
proof -
  let ?z = "[0, 0, 0::real]"
  define F :: "real list list"
    where "F = replicate 10 ?z @ [[3 / 2 ^ 26, 3 / 2 ^ 26, 6 / 2 ^ 26], ?z]"
  have z: "?z = replicate 3 0" by (simp add: numeral_3_eq_3)
  have len: "length F = 12" "F \<noteq> []" by (simp_all add: F_def)
  have silent: "F ! m = ?z" if "m < 10" for m
    using that by (simp add: F_def nth_append)
  have F10: "F ! 10 = [3 / 2 ^ 26, 3 / 2 ^ 26, 6 / 2 ^ 26]" and F11: "F ! 11 = ?z"
    by (simp_all add: F_def nth_append)
  have upt3: "[0..<3] = [0, 1, 2::nat]" by code_simp
  have n: "estimateNoiseVariance F 10 = Inr ?z"
  proof -
    have m: "min (length F) 10 = 10" using len by simp
    have l0: "length (F ! 0) = 3" using silent [of 0] by simp
    have sum0: "(\<Sum>i<10. (F ! i ! j)\<^sup>2) = 0" if "j < 3" for j
    proof (rule sum.neutral, rule ballI)
      fix i :: nat assume "i \<in> {..<10}"
      then have "F ! i = replicate 3 0" using silent [of i] z by simp
      then show "(F ! i ! j)\<^sup>2 = 0" using that by simp
    qed
    have "estimateNoiseVariance F 10 =
            Inr (map (\<lambda>j. (\<Sum>i<10. (F ! i ! j)\<^sup>2) / real (10::nat)) [0..<length (F ! 0)])"
      using estimateNoiseVariance_closed_form [of F 10] unfolding m by simp
    also have "map (\<lambda>j. (\<Sum>i<10. (F ! i ! j)\<^sup>2) / real (10::nat)) [0..<length (F ! 0)] =
               map (\<lambda>j. 0) [0..<length (F ! 0)]"
      by (rule map_cong) (simp_all add: l0 sum0)
    also have "\<dots> = ?z"
      unfolding l0 by (simp add: upt3)
    finally show ?thesis .
  qed
  have x0: "map (\<lambda>j. max ((F ! 0 ! j)\<^sup>2 / orEpsilon ?z j - 1) 0) [0..<length (F ! 0)] = ?z"
    unfolding silent [of 0, simplified] by (simp add: upt3 orEpsilon_def EPSILON_def)
  have "[1..<12] = [1..<10] @ [10, 11::nat]"
    by code_simp
  then have "fold (xi_step F ?z (1 / 2)) [1..<12] [?z] =
          xi_step F ?z (1 / 2) 11 (xi_step F ?z (1 / 2) 10
            (fold (xi_step F ?z (1 / 2)) [1..<10] [?z]))"
    by (simp only: fold_append fold_simps comp_apply)
  also have "fold (xi_step F ?z (1 / 2)) [1..<10] [?z] = replicate 10 ?z"
    unfolding z using silent z by (intro xi_silent_prefix) simp_all
  also have "xi_step F ?z (1 / 2) 10 (replicate 10 ?z) = replicate 10 ?z @ [[4, 4, 35 / 2]]"
    unfolding xi_step_closed F10
    by (simp add: upt3 xi_next_def orEpsilon_def EPSILON_def power2_eq_square)
  also have "xi_step F ?z (1 / 2) 11 (replicate 10 ?z @ [[4, 4, 35 / 2]]) =
               replicate 10 ?z @ [[4, 4, 35 / 2], [2, 2, 35 / 4]]"
    unfolding xi_step_closed F11
    by (simp add: upt3 xi_next_def orEpsilon_def EPSILON_def nth_append)
  finally have "fold (xi_step F ?z (1 / 2)) [1..<12] [?z] =
      replicate 10 ?z @ [[4, 4, 35 / 2], [2, 2, 35 / 4]]" .
  then have x: "estimatePrioriSNR F ?z (1 / 2) =
      Inr (replicate 10 ?z @ [[4, 4, 35 / 2], [2, 2, 35 / 4]])"
    unfolding estimatePrioriSNR_unfold [OF len(2)] x0 len(1) by (rule arg_cong)
  have s: "xi_spec F ?z (1 / 2) 11 0 = 0"
  proof -
    have "xi_spec F ?z (1 / 2) (Suc 10) 0 = 0"
      unfolding xi_spec.simps by (simp add: F_def nth_append orEpsilon_def EPSILON_def)
    then show ?thesis by simp
  qed
  show ?thesis
    using extractDFTFeatures_silence_and_sample n x s unfolding F_def by (intro conjI)
qed

text \<open>
  C4, amended. For a non-empty sequence of spectra of one length \<open>K\<close>, a noise power vector
  of that length with no negative bin and \<open>0 < \<alpha> < 1\<close>, the estimator returns one vector of
  length \<open>K\<close> per frame, none of its values negative, with
  \<open>\<xi>[0][j] = max (y[0][j]\<^sup>2 / s\<^sub>j - 1) 0\<close> and, for \<open>m \<ge> 1\<close>,
  \<open>\<xi>[m][j] = \<alpha> \<cdot> (sqrt (\<xi>[m-1][j] \<cdot> s\<^sub>j)\<^sup>2 / s\<^sub>j) + (1 - \<alpha>) \<cdot> max (y[m][j]\<^sup>2 / s\<^sub>j - 1) 0\<close>,
  where \<open>s\<^sub>j\<close> is \<open>\<sigma>[j]\<close>, or the epsilon when \<open>\<sigma>[j] = 0\<close>, in every place: in the product
  under the square root as in the divisions. The product under the root is then never
  negative. Every quotient \<open>y[m][j]\<^sup>2 / s\<^sub>j\<close> lies within the range of a \<^verbatim>\<open>Float32Array\<close>,
  so that no store of an SNR value overflows.
\<close>

theorem estimatePrioriSNR_recursion:
  assumes "features \<noteq> []" "\<forall>f\<in>set features. length f = K"
    "length sigmaN = K" "\<forall>x\<in>set sigmaN. 0 \<le> x" "0 < alpha" "alpha < 1"
    "\<forall>m<length features. \<forall>j<K.
       (features ! m ! j)\<^sup>2 / (if sigmaN ! j = 0 then EPSILON else sigmaN ! j) \<le> FLOAT32_MAX"
  shows "let s = (\<lambda>j. if sigmaN ! j = 0 then EPSILON else sigmaN ! j)
         in \<exists>xi. estimatePrioriSNR features sigmaN alpha = Inr xi \<and>
              length xi = length features \<and>
              (\<forall>m<length features. length (xi ! m) = K) \<and>
              (\<forall>m<length features. \<forall>j<K. 0 \<le> xi ! m ! j) \<and>
              (\<forall>j<K. xi ! 0 ! j = max ((features ! 0 ! j)\<^sup>2 / s j - 1) 0) \<and>
              (\<forall>m j. 1 \<le> m \<and> m < length features \<and> j < K \<longrightarrow>
                 xi ! m ! j =
                   alpha * ((sqrt (xi ! (m - 1) ! j * s j))\<^sup>2 / s j) +
                   (1 - alpha) * max ((features ! m ! j)\<^sup>2 / s j - 1) 0)"
proof -
  let ?s = "\<lambda>j. if sigmaN ! j = 0 then EPSILON else sigmaN ! j"
  have s: "orEpsilon sigmaN j = ?s j" if "j < K" for j
    using that assms(3) by (simp add: orEpsilon_def)
  obtain xi where xi: "estimatePrioriSNR features sigmaN alpha = Inr xi"
      "length xi = length features"
      "xi ! 0 = map (\<lambda>j. max ((features ! 0 ! j)\<^sup>2 / orEpsilon sigmaN j - 1) 0)
                  [0..<length (features ! 0)]"
      "\<And>m. 1 \<le> m \<Longrightarrow> m < length features \<Longrightarrow>
         xi ! m = map (xi_next (features ! m) (xi ! (m - 1)) sigmaN alpha)
                    [0..<length (features ! m)]"
    using estimatePrioriSNR_closed [OF assms(1), of sigmaN alpha] by blast
  have len: "length (features ! m) = K" if "m < length features" for m
    using assms(2) that by simp
  have l0: "0 < length features" using assms(1) by simp
  have 1: "\<forall>m<length features. length (xi ! m) = K"
  proof (intro allI impI)
    fix m assume m: "m < length features"
    show "length (xi ! m) = K"
    proof (cases "m = 0")
      case True
      then show ?thesis using xi(3) len [OF l0] by simp
    next
      case False
      then show ?thesis using xi(4) [of m] m len [OF m] by simp
    qed
  qed
  have nn: "\<forall>v\<in>set xi. \<forall>x\<in>set v. 0 \<le> x"
    using estimatePrioriSNR_nonneg [OF _ _ assms(2,3,4) xi(1)] assms(5,6) by simp
  have 2: "\<forall>m<length features. \<forall>j<K. 0 \<le> xi ! m ! j"
    using nn 1 xi(2) by (metis nth_mem)
  have 3: "\<forall>j<K. xi ! 0 ! j = max ((features ! 0 ! j)\<^sup>2 / ?s j - 1) 0"
    using xi(3) len [OF l0] s by simp
  have 4: "\<forall>m j. 1 \<le> m \<and> m < length features \<and> j < K \<longrightarrow>
              xi ! m ! j =
                alpha * ((sqrt (xi ! (m - 1) ! j * ?s j))\<^sup>2 / ?s j) +
                (1 - alpha) * max ((features ! m ! j)\<^sup>2 / ?s j - 1) 0"
  proof (intro allI impI)
    fix m j assume a: "1 \<le> m \<and> m < length features \<and> j < K"
    then have "xi ! m = map (xi_next (features ! m) (xi ! (m - 1)) sigmaN alpha) [0..<K]"
      using xi(4) [of m] len [of m] by simp
    then have "xi ! m ! j = xi_next (features ! m) (xi ! (m - 1)) sigmaN alpha j"
      using a by simp
    then show "xi ! m ! j =
                alpha * ((sqrt (xi ! (m - 1) ! j * ?s j))\<^sup>2 / ?s j) +
                (1 - alpha) * max ((features ! m ! j)\<^sup>2 / ?s j - 1) 0"
      unfolding xi_next_def using a s [of j] by (simp only:)
  qed
  show ?thesis unfolding Let_def using xi(1,2) 1 2 3 4 by blast
qed

theorem estimatePrioriSNR_recursion_witness:
  "estimateNoiseVariance [[1, 0, 0], [0, 0, 1]] 10 = Inr [1 / 2, 0, 1 / 2] \<and>
   (\<exists>xi. estimatePrioriSNR [[1, 0, 0], [0, 0, 1]] [1 / 2, 0, 1 / 2] (1 / 2) = Inr xi \<and>
         length xi = 2 \<and> xi ! 0 ! 0 = 1 \<and> xi ! 0 ! 1 = 0 \<and> xi ! 0 ! 2 = 0 \<and>
         xi ! 1 ! 0 = 1 / 2 \<and> xi ! 1 ! 1 = 0 \<and> xi ! 1 ! 2 = 1 / 2)"
proof -
  let ?F = "[[1, 0, 0], [0, 0, 1::real]]" and ?S = "[1 / 2, 0, 1 / 2 :: real]"
  have n: "estimateNoiseVariance ?F 10 = Inr ?S"
    by (simp add: estimateNoiseVariance_def Let_def numeral_2_eq_2 numeral_3_eq_3)
  have h: "?F \<noteq> []" "\<forall>f\<in>set ?F. length f = 3" "length ?S = 3" "\<forall>x\<in>set ?S. 0 \<le> x"
    "(0::real) < 1 / 2" "(1 / 2 :: real) < 1"
    "\<forall>m<length ?F. \<forall>j<3.
       (?F ! m ! j)\<^sup>2 / (if ?S ! j = 0 then EPSILON else ?S ! j) \<le> FLOAT32_MAX"
    by (simp_all add: less_Suc_eq numeral_3_eq_3 FLOAT32_MAX_def)
  obtain xi where xi: "estimatePrioriSNR ?F ?S (1 / 2) = Inr xi" "length xi = length ?F"
    and x0: "\<forall>j<3. xi ! 0 ! j =
               max ((?F ! 0 ! j)\<^sup>2 / (if ?S ! j = 0 then EPSILON else ?S ! j) - 1) 0"
    and x1: "\<forall>m j. 1 \<le> m \<and> m < length ?F \<and> j < 3 \<longrightarrow>
               xi ! m ! j =
                 (1 / 2) * ((sqrt (xi ! (m - 1) ! j * (if ?S ! j = 0 then EPSILON else ?S ! j)))\<^sup>2 /
                            (if ?S ! j = 0 then EPSILON else ?S ! j)) +
                 (1 - 1 / 2) * max ((?F ! m ! j)\<^sup>2 / (if ?S ! j = 0 then EPSILON else ?S ! j) - 1) 0"
    using estimatePrioriSNR_recursion [OF h] unfolding Let_def by blast
  have a: "xi ! 0 ! 0 = 1" "xi ! 0 ! 1 = 0" "xi ! 0 ! 2 = 0"
    using x0 by (simp_all add: EPSILON_def)
  have b: "xi ! 1 ! 0 = 1 / 2" "xi ! 1 ! 1 = 0" "xi ! 1 ! 2 = 1 / 2"
    using x1 [rule_format, of 1 0] x1 [rule_format, of 1 1] x1 [rule_format, of 1 2] a
    by (simp_all add: EPSILON_def)
  show ?thesis using n xi a b by auto
qed

text \<open>
  C7. \<^verbatim>\<open>estimateNoiseVariance\<close> fails exactly when \<open>min nNoiseFrames (length spectra)\<close> is
  zero; otherwise it returns, for every bin \<open>j\<close>, the mean of the squared magnitudes of bin
  \<open>j\<close> over the first \<open>min nNoiseFrames (length spectra)\<close> spectra, and no later spectrum
  enters the result. The spectra used have one length \<open>K\<close>.
\<close>

theorem estimateNoiseVariance_mean_of_squares:
  assumes "\<forall>i<min nNoiseFrames (length features). length (features ! i) = K"
  shows "((\<exists>e. estimateNoiseVariance features nNoiseFrames = Inl e) \<longleftrightarrow>
            min nNoiseFrames (length features) = 0) \<and>
         (0 < min nNoiseFrames (length features) \<longrightarrow>
            estimateNoiseVariance features nNoiseFrames =
              Inr (map (\<lambda>j. (\<Sum>i<min nNoiseFrames (length features). (features ! i ! j)\<^sup>2) /
                             real (min nNoiseFrames (length features))) [0..<K]))"
proof (cases "min nNoiseFrames (length features) = 0")
  case True
  then show ?thesis
    by (simp add: estimateNoiseVariance_def min.commute)
next
  case False
  then have c: "0 < min (length features) nNoiseFrames"
    by (simp add: min.commute)
  then have K: "length (features ! 0) = K"
    using assms by (simp add: min.commute)
  show ?thesis
    using False estimateNoiseVariance_closed_form [OF c] K
    by (simp add: min.commute)
qed

theorem estimateNoiseVariance_mean_of_squares_witness:
  "estimateNoiseVariance [[1, 2], [3, 4], [5, 6]] 2 = Inr [5, 10] \<and>
   estimateNoiseVariance [] 2 = Inl NotEnoughFrames \<and>
   estimateNoiseVariance [[1, 2]] 0 = Inl NotEnoughFrames"
proof -
  have h: "\<forall>i<min 2 (length [[1, 2], [3, 4], [5, 6::real]]). length ([[1, 2], [3, 4], [5, 6::real]] ! i) = 2"
    by (simp add: less_Suc_eq numeral_2_eq_2)
  have a: "estimateNoiseVariance [[1, 2], [3, 4], [5, 6]] 2 = Inr [5, 10]"
    using estimateNoiseVariance_mean_of_squares [OF h]
    by (simp add: numeral_2_eq_2)
  have b: "estimateNoiseVariance [] 2 = Inl NotEnoughFrames"
    by (simp add: estimateNoiseVariance_def)
  have c: "estimateNoiseVariance [[1, 2]] 0 = Inl NotEnoughFrames"
    by (simp add: estimateNoiseVariance_def)
  show ?thesis using a b c by simp
qed

text \<open>
  C8. The claim: every value of the pipeline's vectors is non-negative: every magnitude of
  a spectrum, every bin of the noise power, every a-priori SNR value. A detector of frame
  length 1 and hop 1, which the constructor accepts, cuts the signal \<open>[1, 1]\<close> into the frame
  \<open>[1]\<close>; the window turns it into \<open>[NaN]\<close>, the transform returns the magnitude \<open>NaN\<close>, and
  the spectrum \<open>[NaN]\<close> that \<^verbatim>\<open>extractDFTFeatures\<close> hands on is neither greater than nor
  equal to 0. On finite spectra the values are non-negative
  (\<open>pipeline_values_nonnegative\<close>).
\<close>

theorem spectrum_of_one_sample_frame_is_NaN:
  "FFT_new 1 = Inr 1 \<and>
   frameSignal 1 1 [1, 1] = Some (Inr [[1]]) \<and>
   applyWindow [1] = [NaN] \<and>
   forward_js 1 [NaN] = Inr [NaN] \<and>
   extractDFTFeatures 1 [[1]] = Inr [[NaN]] \<and>
   \<not> gt_js NaN (Fin 0) \<and> NaN \<noteq> Fin 0"
proof -
  have a: "FFT_new 1 = Inr 1" by (simp add: FFT_new_def)
  have b: "frameSignal 1 1 [1, 1] = Some (Inr [[1]])"
    by (simp add: frameSignal_def frameSignal_loop.simps slice_def)
  have c: "applyWindow [1] = [NaN]" by (simp add: applyWindow_def hann_def)
  have d: "forward_js 1 [NaN] = Inr [NaN]"
    by (simp add: forward_js_def accumulate_js_def minus_js_def Let_def)
  have e: "extractDFTFeatures 1 [[1]] = Inr [[NaN]]"
    using c d by (simp add: slice_def)
  show ?thesis using a b c d e by simp
qed



text \<open>
  C9. Threshold monotonicity: for fixed spectra, SNR estimates and noise power and two
  thresholds \<open>0 < t1 \<le> t2\<close>, every frame that is non-speech at \<open>t1\<close> is non-speech at \<open>t2\<close>,
  and the number of non-speech frames at \<open>t2\<close> is at least the number at \<open>t1\<close>.
\<close>

theorem threshold_monotone:
  assumes "0 < t1" "t1 \<le> t2"
  shows "(\<forall>m<length features.
            \<not> speechFrames (detectSpeech_loop features xi sigmaN t1) ! m \<longrightarrow>
            \<not> speechFrames (detectSpeech_loop features xi sigmaN t2) ! m) \<and>
         length (filter Not (speechFrames (detectSpeech_loop features xi sigmaN t1))) \<le>
         length (filter Not (speechFrames (detectSpeech_loop features xi sigmaN t2)))"
proof -
  have ln: "ln t1 \<le> ln t2" using assms by simp
  have l: "log_js (Fin t1) = Fin (ln t1)" "log_js (Fin t2) = Fin (ln t2)"
    using assms by simp_all
  have mono: "gt_js a (log_js (Fin t2)) \<Longrightarrow> gt_js a (log_js (Fin t1))" for a
    unfolding l using ln by (rule gt_js_Fin_mono)
  have 1: "\<forall>m<length features.
            \<not> speechFrames (detectSpeech_loop features xi sigmaN t1) ! m \<longrightarrow>
            \<not> speechFrames (detectSpeech_loop features xi sigmaN t2) ! m"
    using mono by (auto simp: detectSpeech_loop_closed_form simp del: log_js.simps)
  have 2: "length (filter Not (speechFrames (detectSpeech_loop features xi sigmaN t1))) \<le>
         length (filter Not (speechFrames (detectSpeech_loop features xi sigmaN t2)))"
    unfolding detectSpeech_loop_closed_form
    using mono by (simp add: filter_map o_def del: log_js.simps) (rule filter_length_mono, auto)
  show ?thesis using 1 2 by simp
qed

theorem threshold_monotone_witness:
  "length (filter Not (speechFrames (detectSpeech_loop [[1]] [[0]] [1] (1 / 2)))) = 0 \<and>
   length (filter Not (speechFrames (detectSpeech_loop [[1]] [[0]] [1] 2))) = 1 \<and>
   length (filter Not (speechFrames (detectSpeech_loop [[1]] [[0]] [1] (1 / 2)))) \<le>
   length (filter Not (speechFrames (detectSpeech_loop [[1]] [[0]] [1] 2)))"
proof -
  have h: "(0::real) < 1 / 2" "(1 / 2 :: real) \<le> 2" by simp_all
  have l: "ln (1 / 2 :: real) < 0" "(0::real) < ln 2" by simp_all
  have m: "\<not> MAX_VALUE < 1" using exp_le_MAX_VALUE [of 0] by simp
  have a: "avgLogL [1] [0] [1] = Fin 0"
    using m by (simp add: avgLogL_def sumLogL_step_def likelihood_def orEpsilon_def EPSILON_def)
  have b: "length (filter Not (speechFrames (detectSpeech_loop [[1]] [[0]] [1] (1 / 2)))) = 0"
    using l a by (simp add: detectSpeech_loop_def decide_step_def)
  have c: "length (filter Not (speechFrames (detectSpeech_loop [[1]] [[0]] [1] 2))) = 1"
    using l a by (simp add: detectSpeech_loop_def decide_step_def)
  show ?thesis
    using threshold_monotone [OF h, of "[[1]]" "[[0]]" "[1]"] b c by simp
qed

text \<open>
  C10. For a bin \<open>j\<close> whose noise power is exactly zero, the likelihood ratio \<open>L\<^sub>j\<close> is exactly
  1 and the bin adds exactly 0 to the sum of logarithms, whatever the spectrum value and the
  SNR estimate at that bin: replacing both leaves the frame's average log-likelihood, and so
  its decision, unchanged.
\<close>

theorem zero_noise_bin_contributes_nothing:
  assumes "j < length sigmaN" "sigmaN ! j = 0"
  shows "likelihood frame xi_m sigmaN j = Fin 1 \<and>
         sumLogL_step frame xi_m sigmaN j sumLogL = sumLogL \<and>
         avgLogL (frame[j := y]) (xi_m[j := x]) sigmaN = avgLogL frame xi_m sigmaN"
proof -
  have m: "\<not> MAX_VALUE < 1" using exp_le_MAX_VALUE [of 0] by simp
  have e: "orEpsilon sigmaN j = EPSILON" "EPSILON \<noteq> 0"
    using assms EPSILON_pos by (simp_all add: orEpsilon_def)
  have one: "likelihood f v sigmaN j = Fin 1" for f v
    using assms(2) m e by (simp add: likelihood_def)
  have same: "likelihood (frame[j := y]) (xi_m[j := x]) sigmaN i = likelihood frame xi_m sigmaN i"
    for i
  proof (cases "i = j")
    case True
    then show ?thesis using one by simp
  next
    case False
    then show ?thesis by (simp add: likelihood_def)
  qed
  have l: "log_js (max_js (Fin 1) (Fin EPSILON)) = Fin 0"
    by (simp add: max_one_EPSILON)
  have "sumLogL_step frame xi_m sigmaN j sumLogL = sumLogL"
    unfolding sumLogL_step_def one l by simp
  moreover have "sumLogL_step (frame[j := y]) (xi_m[j := x]) sigmaN = sumLogL_step frame xi_m sigmaN"
    by (simp add: sumLogL_step_def same fun_eq_iff)
  then have "avgLogL (frame[j := y]) (xi_m[j := x]) sigmaN = avgLogL frame xi_m sigmaN"
    by (simp add: avgLogL_def)
  ultimately show ?thesis using one by simp
qed

theorem zero_noise_bin_contributes_nothing_witness:
  "likelihood [3] [5] [0] 0 = Fin 1 \<and> sumLogL_step [3] [5] [0] 0 (Fin 7) = Fin 7 \<and>
   avgLogL [4] [6] [0] = avgLogL [3] [5] [0]"
proof -
  have h: "(0::nat) < length [0::real]" "[0::real] ! 0 = 0" by simp_all
  show ?thesis
    using zero_noise_bin_contributes_nothing [OF h, of "[3]" "[5]" "Fin 7" 4 6] by simp
qed

text \<open>
  C5. The claim: for every power-of-two size, at least 64, 256 and 1024, and every real
  frame of that size, the reference transform \<^verbatim>\<open>forward\<close> and the fast radix-2 transform
  agree within the tolerance on every bin. On the unit impulse of size 64 (and of every size
  \<open>2 ^ k\<close>, \<open>impulse_disagreement\<close>) the radix-2 transform has magnitude 1 in bin 0, while
  \<^verbatim>\<open>forward\<close> returns 2 there, because it adds the input sample to the real part: the two
  differ by 1, outside the tolerance.
\<close>

theorem reference_and_fast_disagree_on_impulse:
  "FFT_new 64 = Inr 64 \<and>
   (\<exists>r f. forward 64 (1 # replicate 63 0) = Inr r \<and>
          forward_fast 6 (1 # replicate 63 0) = Inr f \<and>
          r ! 0 = 2 \<and> f ! 0 = 1 \<and> \<not> within_tolerance (r ! 0) (f ! 0))"
proof -
  have a: "FFT_new 64 = Inr 64" by (simp add: FFT_new_def)
  have e: "(2::nat) ^ 6 = 64" "(64::nat) - 1 = 63" by simp_all
  have "\<exists>r f. forward 64 (1 # replicate 63 0) = Inr r \<and>
          forward_fast 6 (1 # replicate 63 0) = Inr f \<and>
          r ! 0 = 2 \<and> f ! 0 = 1 \<and> \<not> within_tolerance (r ! 0) (f ! 0)"
    using impulse_disagreement [of 6] unfolding e .
  with a show ?thesis ..
qed

end
